theory Spec2Isabelle
  imports Main
begin

section \<open>Shared data model\<close>

text \<open>
  JavaScript exceptions are values of type \<open>error\<close>. \<open>Error\<close> carries the message of a
  \<^verbatim>\<open>new Error(msg)\<close>; \<open>TypeError\<close> is what the runtime raises when a property of
  \<^verbatim>\<open>undefined\<close> or \<^verbatim>\<open>null\<close> is read.
\<close>

datatype error = Error string | TypeError string

type_synonym Address = string
type_synonym Hash = string

text \<open>
  \<^verbatim>\<open>RawTransaction\<close> of \<^verbatim>\<open>utils/event.ts\<close>. \<^verbatim>\<open>bigint\<close> is \<open>int\<close>;
  \<^verbatim>\<open>to: string | null\<close> and the optional \<^verbatim>\<open>blockNumber\<close> are options. The field names
  carry the prefix \<open>tx_\<close>.
\<close>

record RawTransaction =
  tx_hash :: Hash
  tx_from :: string
  tx_to :: "string option"
  tx_value :: int
  tx_blockNumber :: "int option"

datatype EventType = Pending | Confirmed

datatype WatchedSide = From | To | Both

text \<open>\<^verbatim>\<open>TransferEvent\<close> of \<^verbatim>\<open>types.ts\<close>, field names prefixed with \<open>ev_\<close>.\<close>

record TransferEvent =
  ev_type :: EventType
  ev_txHash :: Hash
  ev_blockNumber :: "int option"
  ev_from :: Address
  ev_fromLabel :: "string option"
  ev_to :: "Address option"
  ev_toLabel :: "string option"
  ev_valueWei :: int
  ev_valueETH :: string
  ev_watchedSide :: WatchedSide
  ev_seenInMempool :: bool
  ev_timestamp :: int

text \<open>
  The fields of \<^verbatim>\<open>AppConfig\<close> that the detection pipeline reads: the threshold, the set of
  watched addresses and the label map.
\<close>

record AppConfig =
  thresholdWei :: int
  watchedAddressesSet :: "Address set"
  addressLabelMap :: "Address \<rightharpoonup> string"

section \<open>Address utilities (\<^verbatim>\<open>utils/address.ts\<close>)\<close>

text \<open>
  \<^verbatim>\<open>String.prototype.toLowerCase\<close> on the characters an address is written with: the
  twenty-six ASCII capitals go to their small letters, every other character is kept.
\<close>

definition toLowerCase_char :: "char \<Rightarrow> char" where
  "toLowerCase_char c =
     (case map_of (zip ''ABCDEFGHIJKLMNOPQRSTUVWXYZ'' ''abcdefghijklmnopqrstuvwxyz'') c of
        Some d \<Rightarrow> d
      | None \<Rightarrow> c)"

definition toLowerCase :: "string \<Rightarrow> string" where
  "toLowerCase s = map toLowerCase_char s"

definition normalizeAddress :: "string \<Rightarrow> Address" where
  "normalizeAddress address = toLowerCase address"

definition isAddressWatched :: "string \<Rightarrow> Address set \<Rightarrow> bool" where
  "isAddressWatched address watchedSet \<longleftrightarrow> normalizeAddress address \<in> watchedSet"

definition getAddressLabel :: "string \<Rightarrow> (Address \<rightharpoonup> string) \<Rightarrow> string option" where
  "getAddressLabel address labelMap = labelMap (normalizeAddress address)"

text \<open>
  A value of type \<^verbatim>\<open>string | null\<close> used as a condition (\<^verbatim>\<open>to ? x : y\<close>,
  \<^verbatim>\<open>!tx.to\<close>) is falsy when it is \<^verbatim>\<open>null\<close> and also when it is the empty string.
\<close>

fun truthy :: "string option \<Rightarrow> bool" where
  "truthy None = False"
| "truthy (Some s) = (s \<noteq> [])"

definition getWatchedSide :: "string \<Rightarrow> string option \<Rightarrow> Address set \<Rightarrow> WatchedSide option" where
  "getWatchedSide from_addr to_addr watchedSet =
     (let isFromWatched = isAddressWatched from_addr watchedSet;
          isToWatched = (case to_addr of
                           Some t \<Rightarrow> if truthy to_addr then isAddressWatched t watchedSet else False
                         | None \<Rightarrow> False)
      in if isFromWatched \<and> isToWatched then Some Both
         else if isFromWatched then Some From
         else if isToWatched then Some To
         else None)"

section \<open>Event utilities (\<^verbatim>\<open>utils/event.ts\<close>)\<close>

text \<open>
  \<^verbatim>\<open>buildTransferEvent\<close>. Two things come from outside the repository and are parameters:
  \<open>formatEther\<close> (the library function behind \<^verbatim>\<open>formatWeiToETH\<close>) and \<open>now\<close>, the
  reading of \<^verbatim>\<open>Date.now()\<close>. The \<^verbatim>\<open>throw\<close> is the \<open>Inl\<close> result.
\<close>

definition buildTransferEvent ::
  "(int \<Rightarrow> string) \<Rightarrow> int \<Rightarrow> RawTransaction \<Rightarrow> AppConfig \<Rightarrow> EventType \<Rightarrow> bool
     \<Rightarrow> error + TransferEvent" where
  "buildTransferEvent formatEther now tx config type seenInMempool =
     (let fromAddress = normalizeAddress (tx_from tx);
          toAddress = (case tx_to tx of
                         Some t \<Rightarrow> if truthy (tx_to tx) then Some (normalizeAddress t) else None
                       | None \<Rightarrow> None)
      in case getWatchedSide (tx_from tx) (tx_to tx) (watchedAddressesSet config) of
           None \<Rightarrow> Inl (Error ''Neither from nor to address is watched'')
         | Some watchedSide \<Rightarrow>
             Inr \<lparr> ev_type = type,
                   ev_txHash = tx_hash tx,
                   ev_blockNumber = tx_blockNumber tx,
                   ev_from = fromAddress,
                   ev_fromLabel = getAddressLabel fromAddress (addressLabelMap config),
                   ev_to = toAddress,
                   ev_toLabel = (case toAddress of
                                   Some t \<Rightarrow> if truthy toAddress
                                             then getAddressLabel t (addressLabelMap config)
                                             else None
                                 | None \<Rightarrow> None),
                   ev_valueWei = tx_value tx,
                   ev_valueETH = formatEther (tx_value tx),
                   ev_watchedSide = watchedSide,
                   ev_seenInMempool = seenInMempool,
                   ev_timestamp = now \<rparr>)"

definition shouldProcessTransaction :: "RawTransaction \<Rightarrow> AppConfig \<Rightarrow> Hash set \<Rightarrow> bool" where
  "shouldProcessTransaction tx config seenTxHashes =
     (if tx_hash tx \<in> seenTxHashes then False
      else if \<not> truthy (tx_to tx) then False
      else if tx_value tx < thresholdWei config then False
      else getWatchedSide (tx_from tx) (tx_to tx) (watchedAddressesSet config) \<noteq> None)"

text \<open>The configuration and transactions of the repository's unit tests, at threshold 100 ETH.\<close>

definition test_config :: AppConfig where
  "test_config =
     \<lparr> thresholdWei = 100 * 10 ^ 18,
       watchedAddressesSet = {''0xd551234ae421e3bcba99a0da6d736074f22192ff'',
                              ''0x503828976d22510aad0201ac7ec88293211d23da''},
       addressLabelMap = [''0xd551234ae421e3bcba99a0da6d736074f22192ff'' \<mapsto> ''Binance 1'',
                          ''0x503828976d22510aad0201ac7ec88293211d23da'' \<mapsto> ''Coinbase 1''] \<rparr>"

definition test_tx :: "int \<Rightarrow> RawTransaction" where
  "test_tx v =
     \<lparr> tx_hash = ''0xdef'',
       tx_from = ''0xD551234Ae421e3BCBA99A0dA6d736074f22192Ff'',
       tx_to = Some ''0x1234567890123456789012345678901234567890'',
       tx_value = v,
       tx_blockNumber = None \<rparr>"

text \<open>
  Changing the case of hexadecimal digits: \<open>flip_hex_case\<close> swaps the case of one of the
  letters a-f / A-F and keeps every other character; \<open>change_hex_case flips a\<close> applies it
  at the positions where \<open>flips\<close> is true, so the masks range over the subsets of positions.
\<close>

definition flip_hex_case :: "char \<Rightarrow> char" where
  "flip_hex_case c =
     (case map_of (zip ''abcdefABCDEF'' ''ABCDEFabcdef'') c of Some d \<Rightarrow> d | None \<Rightarrow> c)"

fun change_hex_case :: "bool list \<Rightarrow> string \<Rightarrow> string" where
  "change_hex_case (b # bs) (c # cs) = (if b then flip_hex_case c else c) # change_hex_case bs cs"
| "change_hex_case [] cs = cs"
| "change_hex_case bs [] = []"

section \<open>Properties of the address and event utilities\<close>

lemma toLowerCase_flip_hex_case: "toLowerCase_char (flip_hex_case c) = toLowerCase_char c"
  by (simp add: toLowerCase_char_def flip_hex_case_def)

lemma toLowerCase_change_hex_case: "toLowerCase (change_hex_case flips a) = toLowerCase a"
  by (induction flips a rule: change_hex_case.induct)
     (simp_all add: toLowerCase_def toLowerCase_flip_hex_case)

lemma getWatchedSide_None_iff:
  "getWatchedSide f t W = None \<longleftrightarrow>
     normalizeAddress f \<notin> W \<and> \<not> (\<exists>a. t = Some a \<and> a \<noteq> [] \<and> normalizeAddress a \<in> W)"
  by (cases t) (auto simp: getWatchedSide_def isAddressWatched_def Let_def)

lemma test_from_normalized:
  "normalizeAddress ''0xD551234Ae421e3BCBA99A0dA6d736074f22192Ff''
     = ''0xd551234ae421e3bcba99a0da6d736074f22192ff''"
  by (simp add: normalizeAddress_def toLowerCase_def toLowerCase_char_def)

lemma test_to_normalized:
  "normalizeAddress ''0x1234567890123456789012345678901234567890''
     = ''0x1234567890123456789012345678901234567890''"
  by (simp add: normalizeAddress_def toLowerCase_def toLowerCase_char_def)

lemma test_tx_watchedSide:
  "getWatchedSide ''0xD551234Ae421e3BCBA99A0dA6d736074f22192Ff''
     (Some ''0x1234567890123456789012345678901234567890'') (watchedAddressesSet test_config)
     = Some From"
  by (simp add: getWatchedSide_def isAddressWatched_def test_from_normalized
      test_to_normalized test_config_def)

lemma test_tx_admitted:
  "shouldProcessTransaction (test_tx v \<lparr> tx_hash := h, tx_blockNumber := b \<rparr>) test_config seen
     \<longleftrightarrow> h \<notin> seen \<and> 100 * 10 ^ 18 \<le> v"
  by (simp add: shouldProcessTransaction_def test_tx_def test_tx_watchedSide)
     (simp add: test_config_def)

lemma test_tx_event:
  "\<exists>event. buildTransferEvent formatEther now (test_tx v \<lparr> tx_hash := h, tx_blockNumber := b \<rparr>)
       test_config type seenInMempool = Inr event
     \<and> ev_type event = type \<and> ev_txHash event = h \<and> ev_blockNumber event = b
     \<and> ev_seenInMempool event = seenInMempool"
  by (simp add: buildTransferEvent_def test_tx_def test_tx_watchedSide Let_def)

text \<open>
  C9. Whether an address is watched does not depend on the case of its hexadecimal digits:
  for every address string \<open>a\<close>, every watched set and every choice \<open>flips\<close> of positions whose
  hex digits change case, \<open>isAddressWatched\<close> gives the same answer on the changed string.
\<close>

theorem isAddressWatched_case_invariant:
  "isAddressWatched (change_hex_case flips a) watched = isAddressWatched a watched"
  by (simp add: isAddressWatched_def normalizeAddress_def toLowerCase_change_hex_case)

text \<open>
  The first watched address of the tests with its first hex digit in upper case,
  \<^verbatim>\<open>0xD55...\<close>, is watched.
\<close>

theorem isAddressWatched_case_invariant_witness:
  "change_hex_case [False, False, True] ''0xd551234ae421e3bcba99a0da6d736074f22192ff''
     = ''0xD551234ae421e3bcba99a0da6d736074f22192ff''
   \<and> isAddressWatched ''0xD551234ae421e3bcba99a0da6d736074f22192ff''
       (watchedAddressesSet test_config)"
proof -
  have changed: "change_hex_case [False, False, True] ''0xd551234ae421e3bcba99a0da6d736074f22192ff''
     = ''0xD551234ae421e3bcba99a0da6d736074f22192ff''"
    by (simp add: flip_hex_case_def)
  have "isAddressWatched ''0xd551234ae421e3bcba99a0da6d736074f22192ff''
       (watchedAddressesSet test_config)"
    by (simp add: isAddressWatched_def normalizeAddress_def toLowerCase_def
        toLowerCase_char_def test_config_def)
  with isAddressWatched_case_invariant [of "[False, False, True]"
      "''0xd551234ae421e3bcba99a0da6d736074f22192ff''" "watchedAddressesSet test_config"] changed
  show ?thesis by simp
qed


definition empty_to_tx :: RawTransaction where
  "empty_to_tx = (test_tx (100 * 10 ^ 18)) \<lparr> tx_to := Some [] \<rparr>"

text \<open>
  C4, as stated, fails where \<^verbatim>\<open>tx.to\<close> is the empty string: the hash is unseen, \<^verbatim>\<open>tx.to\<close>
  is not \<^verbatim>\<open>null\<close>, the value is the threshold and the sender is watched, yet
  \<^verbatim>\<open>!tx.to\<close> holds for the empty string and the function returns false.
\<close>

theorem shouldProcessTransaction_empty_to:
  "shouldProcessTransaction empty_to_tx test_config {} = False
   \<and> tx_hash empty_to_tx \<notin> {}
   \<and> tx_to empty_to_tx \<noteq> None
   \<and> thresholdWei test_config \<le> tx_value empty_to_tx
   \<and> normalizeAddress (tx_from empty_to_tx) \<in> watchedAddressesSet test_config"
  by (simp add: shouldProcessTransaction_def empty_to_tx_def test_tx_def test_from_normalized)
     (simp add: test_config_def)

text \<open>
  C4 (amended). \<open>shouldProcessTransaction tx config seen\<close> is true if and only if the hash
  is not in \<open>seen\<close>, \<^verbatim>\<open>tx.to\<close> is neither \<^verbatim>\<open>null\<close> nor the empty string, the value is at
  least the threshold, and the lowercase form of \<^verbatim>\<open>tx.from\<close> or of \<^verbatim>\<open>tx.to\<close> is in the
  watched set. At a threshold of 100 ETH the test transaction is admitted with exactly
  100 ETH and refused with one wei less.
\<close>

theorem shouldProcessTransaction_iff:
  "(shouldProcessTransaction tx config seen \<longleftrightarrow>
      tx_hash tx \<notin> seen
      \<and> (\<exists>a. tx_to tx = Some a \<and> a \<noteq> []
             \<and> (normalizeAddress (tx_from tx) \<in> watchedAddressesSet config
                  \<or> normalizeAddress a \<in> watchedAddressesSet config))
      \<and> thresholdWei config \<le> tx_value tx)
   \<and> shouldProcessTransaction (test_tx (100 * 10 ^ 18)) test_config {}
   \<and> \<not> shouldProcessTransaction (test_tx (100 * 10 ^ 18 - 1)) test_config {}"
proof -
  have general: "shouldProcessTransaction tx config seen \<longleftrightarrow>
      tx_hash tx \<notin> seen
      \<and> (\<exists>a. tx_to tx = Some a \<and> a \<noteq> []
             \<and> (normalizeAddress (tx_from tx) \<in> watchedAddressesSet config
                  \<or> normalizeAddress a \<in> watchedAddressesSet config))
      \<and> thresholdWei config \<le> tx_value tx"
    by (cases "tx_to tx") (auto simp: shouldProcessTransaction_def getWatchedSide_None_iff)
  have at_threshold: "shouldProcessTransaction (test_tx (100 * 10 ^ 18)) test_config {}"
    by (simp add: shouldProcessTransaction_def test_tx_def test_tx_watchedSide)
       (simp add: test_config_def)
  have below: "\<not> shouldProcessTransaction (test_tx (100 * 10 ^ 18 - 1)) test_config {}"
    by (simp add: shouldProcessTransaction_def test_tx_def test_config_def)
  from general at_threshold below show ?thesis by blast
qed

text \<open>The equivalence at the test transaction carrying 150 ETH, which is admitted.\<close>

theorem shouldProcessTransaction_iff_witness:
  "shouldProcessTransaction (test_tx (150 * 10 ^ 18)) test_config {}
   \<and> tx_hash (test_tx (150 * 10 ^ 18)) \<notin> {}
   \<and> thresholdWei test_config \<le> tx_value (test_tx (150 * 10 ^ 18))"
  using shouldProcessTransaction_iff [of "test_tx (150 * 10 ^ 18)" test_config "{}"]
  by (simp add: test_tx_def test_from_normalized) (simp add: test_config_def)

text \<open>
  C10. \<open>buildTransferEvent\<close> throws exactly when \<open>getWatchedSide\<close> of the same
  transaction and watched set is \<^verbatim>\<open>null\<close>; and whenever \<open>shouldProcessTransaction\<close> is
  true of the transaction and the configuration, \<open>buildTransferEvent\<close> returns an event.
\<close>

theorem buildTransferEvent_throws_iff:
  "(isl (buildTransferEvent formatEther now tx config type seenInMempool) \<longleftrightarrow>
      getWatchedSide (tx_from tx) (tx_to tx) (watchedAddressesSet config) = None)
   \<and> (shouldProcessTransaction tx config seen \<longrightarrow>
        (\<exists>event. buildTransferEvent formatEther now tx config type seenInMempool = Inr event))"
  by (auto simp: buildTransferEvent_def shouldProcessTransaction_def Let_def
      split: option.splits if_splits)

text \<open>
  The test transaction with 150 ETH passes \<open>shouldProcessTransaction\<close>, and the event is
  built.
\<close>

theorem buildTransferEvent_throws_iff_witness:
  "shouldProcessTransaction (test_tx (150 * 10 ^ 18)) test_config {}
   \<and> (\<exists>event. buildTransferEvent (\<lambda>w. ''150'') 0 (test_tx (150 * 10 ^ 18)) test_config Pending True
          = Inr event)"
proof -
  have admitted: "shouldProcessTransaction (test_tx (150 * 10 ^ 18)) test_config {}"
    by (simp add: shouldProcessTransaction_def test_tx_def test_tx_watchedSide)
       (simp add: test_config_def)
  with buildTransferEvent_throws_iff
    [of "\<lambda>w. ''150''" 0 "test_tx (150 * 10 ^ 18)" test_config Pending True "{}"]
  show ?thesis by blast
qed


section \<open>The RPC client and the transfer detection pipeline (\<^verbatim>\<open>watcher/blocks.ts\<close>, \<^verbatim>\<open>watcher/pending.ts\<close>)\<close>

text \<open>
  A block as the client returns it: its number (\<^verbatim>\<open>null\<close> for a pending block) and its
  transactions, each either a bare hash (a string) or a full transaction object.
\<close>

datatype BlockTx = TxHash Hash | TxFull RawTransaction

record Block =
  number :: "int option"
  transactions :: "BlockTx list"

text \<open>
  The three requests the code sends through a \<^verbatim>\<open>PublicClient\<close>. Each is an answer the
  node gives: \<open>Inl\<close> is a rejected promise, \<open>Inr\<close> the resolved value.
  \<^verbatim>\<open>getTransaction\<close> may resolve to nothing.
\<close>

record Client =
  getBlockNumber :: "error + int"
  getBlock :: "int \<Rightarrow> error + Block"
  getTransaction :: "Hash \<Rightarrow> error + RawTransaction option"

text \<open>
  What both watchers share: the dedup set \<^verbatim>\<open>seenTxHashes\<close> and the sink. The sink is
  the list of events handed to \<^verbatim>\<open>onTransfer\<close>, oldest first. An exception raised by the
  sink itself is caught by the surrounding \<^verbatim>\<open>try\<close> of either processor, after the event
  was handed over, so it changes nothing recorded here.
\<close>

record Pipeline =
  seenTxHashes :: "Hash set"
  onTransfer_calls :: "TransferEvent list"

definition new_Pipeline :: Pipeline where
  "new_Pipeline = \<lparr> seenTxHashes = {}, onTransfer_calls = [] \<rparr>"

text \<open>
  \<^verbatim>\<open>processPendingTransaction\<close>: every exception inside is caught and logged, so the
  result is always a pipeline state. The hash added to the dedup set is the requested
  \<^verbatim>\<open>txHash\<close>; the hash tested and the hash of the event are \<^verbatim>\<open>tx.hash\<close> of the fetched
  transaction.
\<close>

definition processPendingTransaction ::
  "(int \<Rightarrow> string) \<Rightarrow> int \<Rightarrow> Client \<Rightarrow> AppConfig \<Rightarrow> Hash \<Rightarrow> Pipeline \<Rightarrow> Pipeline" where
  "processPendingTransaction formatEther now client config txHash s =
     (case getTransaction client txHash of
        Inl e \<Rightarrow> s
      | Inr None \<Rightarrow> s
      | Inr (Some tx) \<Rightarrow>
          if \<not> shouldProcessTransaction tx config (seenTxHashes s) then s
          else let s1 = s \<lparr> seenTxHashes := insert txHash (seenTxHashes s) \<rparr>
               in (case buildTransferEvent formatEther now tx config Pending True of
                     Inl e \<Rightarrow> s1
                   | Inr event \<Rightarrow> s1 \<lparr> onTransfer_calls := onTransfer_calls s1 @ [event] \<rparr>))"

text \<open>\<^verbatim>\<open>processBlockTransaction\<close>, with \<^verbatim>\<open>blockNumber: bigint\<close>.\<close>

definition processBlockTransaction ::
  "(int \<Rightarrow> string) \<Rightarrow> int \<Rightarrow> RawTransaction \<Rightarrow> int \<Rightarrow> AppConfig \<Rightarrow> Pipeline \<Rightarrow> Pipeline" where
  "processBlockTransaction formatEther now tx blockNumber config s =
     (let txWithBlock = tx \<lparr> tx_blockNumber := Some blockNumber \<rparr>;
          wasSeenInMempool = (tx_hash tx \<in> seenTxHashes s)
      in if \<not> wasSeenInMempool \<and> \<not> shouldProcessTransaction txWithBlock config (seenTxHashes s)
         then s
         else if wasSeenInMempool then s
         else let s1 = s \<lparr> seenTxHashes := insert (tx_hash tx) (seenTxHashes s) \<rparr>
              in case buildTransferEvent formatEther now txWithBlock config Confirmed False of
                   Inl e \<Rightarrow> s1
                 | Inr event \<Rightarrow> s1 \<lparr> onTransfer_calls := onTransfer_calls s1 @ [event] \<rparr>)"

text \<open>
  The loop of \<^verbatim>\<open>processBlock\<close> over the transactions; \<open>now i\<close> is the clock reading
  while the \<open>i\<close>-th entry is processed. Bare hashes are skipped.
\<close>

fun processBlock_loop ::
  "(int \<Rightarrow> string) \<Rightarrow> (nat \<Rightarrow> int) \<Rightarrow> nat \<Rightarrow> int \<Rightarrow> AppConfig \<Rightarrow> BlockTx list \<Rightarrow> Pipeline
     \<Rightarrow> Pipeline" where
  "processBlock_loop formatEther now i blockNumber config [] s = s"
| "processBlock_loop formatEther now i blockNumber config (TxHash h # txs) s =
     processBlock_loop formatEther now (Suc i) blockNumber config txs s"
| "processBlock_loop formatEther now i blockNumber config (TxFull tx # txs) s =
     processBlock_loop formatEther now (Suc i) blockNumber config txs
       (processBlockTransaction formatEther (now i) tx blockNumber config s)"

text \<open>
  \<^verbatim>\<open>processBlock\<close>. With transactions and no block number, \<^verbatim>\<open>blockNumber.toString()\<close>
  raises a TypeError before the loop; the \<^verbatim>\<open>catch\<close> logs it and nothing is processed.
\<close>

definition processBlock ::
  "(int \<Rightarrow> string) \<Rightarrow> (nat \<Rightarrow> int) \<Rightarrow> Block \<Rightarrow> AppConfig \<Rightarrow> Pipeline \<Rightarrow> Pipeline" where
  "processBlock formatEther now block config s =
     (if transactions block = [] then s
      else case number block of
             None \<Rightarrow> s
           | Some blockNumber \<Rightarrow>
               processBlock_loop formatEther now 0 blockNumber config (transactions block) s)"

text \<open>
  A run of the pipeline: the two processors called one after the other, in any order, on
  one shared state. A pending step names the client it fetches from and its clock
  reading; a confirmed step is one call of \<open>processBlockTransaction\<close>.
\<close>

datatype PipelineStep =
    PendingStep Client Hash int
  | ConfirmedStep RawTransaction int int

fun pipeline_step :: "(int \<Rightarrow> string) \<Rightarrow> AppConfig \<Rightarrow> Pipeline \<Rightarrow> PipelineStep \<Rightarrow> Pipeline" where
  "pipeline_step formatEther config s (PendingStep client txHash now) =
     processPendingTransaction formatEther now client config txHash s"
| "pipeline_step formatEther config s (ConfirmedStep tx blockNumber now) =
     processBlockTransaction formatEther now tx blockNumber config s"

definition pipeline_run ::
  "(int \<Rightarrow> string) \<Rightarrow> AppConfig \<Rightarrow> PipelineStep list \<Rightarrow> Pipeline \<Rightarrow> Pipeline" where
  "pipeline_run formatEther config steps s = foldl (pipeline_step formatEther config) s steps"

text \<open>
  The contract of \<^verbatim>\<open>eth_getTransactionByHash\<close>: a transaction returned for a hash
  carries that hash.
\<close>

fun fetch_returns_requested :: "PipelineStep \<Rightarrow> bool" where
  "fetch_returns_requested (PendingStep client txHash now) =
     (case getTransaction client txHash of
        Inr (Some tx) \<Rightarrow> tx_hash tx = txHash
      | _ \<Rightarrow> True)"
| "fetch_returns_requested (ConfirmedStep tx blockNumber now) = True"

text \<open>The number of events the sink has received for one hash.\<close>

definition events_for :: "Hash \<Rightarrow> Pipeline \<Rightarrow> nat" where
  "events_for h s = length (filter (\<lambda>e. ev_txHash e = h) (onTransfer_calls s))"

text \<open>Every hash that reached the sink is in the dedup set, and no hash reached it twice.\<close>

definition emitted_once :: "Pipeline \<Rightarrow> bool" where
  "emitted_once s \<longleftrightarrow>
     distinct (map ev_txHash (onTransfer_calls s))
     \<and> set (map ev_txHash (onTransfer_calls s)) \<subseteq> seenTxHashes s"

text \<open>Scenario S6: a client that knows one pending transaction, \<^verbatim>\<open>0xabc\<close>, of 150 ETH.\<close>

definition abc_tx :: RawTransaction where
  "abc_tx = (test_tx (150 * 10 ^ 18)) \<lparr> tx_hash := ''0xabc'' \<rparr>"

definition abc_client :: "int option \<Rightarrow> Client" where
  "abc_client mined =
     \<lparr> getBlockNumber = Inr 100,
       getBlock = (\<lambda>n. Inl (Error ''unavailable'')),
       getTransaction = (\<lambda>h. if h = ''0xabc'' then Inr (Some (abc_tx \<lparr> tx_blockNumber := mined \<rparr>))
                             else Inr None) \<rparr>"

subsection \<open>Properties of the pipeline\<close>

lemma buildTransferEvent_fields:
  "buildTransferEvent formatEther now tx config type seenInMempool = Inr event \<Longrightarrow>
     ev_type event = type \<and> ev_txHash event = tx_hash tx
     \<and> ev_blockNumber event = tx_blockNumber tx \<and> ev_seenInMempool event = seenInMempool"
  by (auto simp: buildTransferEvent_def Let_def split: option.splits)

lemma shouldProcessTransaction_unseen:
  "shouldProcessTransaction tx config seen \<Longrightarrow> tx_hash tx \<notin> seen"
  by (simp add: shouldProcessTransaction_def split: if_splits)

lemma processPendingTransaction_emitted_once:
  assumes "emitted_once s" and "fetch_returns_requested (PendingStep client txHash now)"
  shows "emitted_once (processPendingTransaction formatEther now client config txHash s)"
  using assms
  by (auto simp: emitted_once_def processPendingTransaction_def Let_def
      dest!: buildTransferEvent_fields shouldProcessTransaction_unseen
      split: sum.splits option.splits)

lemma processBlockTransaction_emitted_once:
  assumes "emitted_once s"
  shows "emitted_once (processBlockTransaction formatEther now tx blockNumber config s)"
  using assms
  by (auto simp: emitted_once_def processBlockTransaction_def Let_def
      dest!: buildTransferEvent_fields split: sum.splits)

lemma pipeline_run_emitted_once:
  "emitted_once s \<Longrightarrow> list_all fetch_returns_requested steps \<Longrightarrow>
     emitted_once (pipeline_run formatEther config steps s)"
  unfolding pipeline_run_def
proof (induction steps arbitrary: s)
  case Nil
  then show ?case by simp
next
  case (Cons step steps)
  have "emitted_once (pipeline_step formatEther config s step)"
  proof (cases step)
    case (PendingStep client txHash now)
    with Cons.prems show ?thesis
      by (simp add: processPendingTransaction_emitted_once)
  next
    case (ConfirmedStep tx blockNumber now)
    with Cons.prems show ?thesis
      by (simp add: processBlockTransaction_emitted_once)
  qed
  with Cons show ?case by simp
qed

lemma distinct_filter_le_one:
  "distinct (map f xs) \<Longrightarrow> length (filter (\<lambda>x. f x = h) xs) \<le> 1"
  by (induction xs) (auto simp: filter_empty_conv image_iff)

lemma processBlockTransaction_seen:
  "tx_hash tx \<in> seenTxHashes s \<Longrightarrow>
     processBlockTransaction formatEther now tx blockNumber config s = s"
  by (simp add: processBlockTransaction_def)


text \<open>
  A node that is asked for \<^verbatim>\<open>0xABC\<close> and answers with the transaction whose hash field
  reads \<^verbatim>\<open>0xabc\<close>; the block that confirms it lists it as \<^verbatim>\<open>0xabc\<close>.
\<close>

definition other_case_client :: Client where
  "other_case_client =
     \<lparr> getBlockNumber = Inr 100,
       getBlock = (\<lambda>n. Inl (Error ''unavailable'')),
       getTransaction = (\<lambda>h. if h = ''0xABC'' then Inr (Some abc_tx) else Inr None) \<rparr>"

definition other_case_steps :: "PipelineStep list" where
  "other_case_steps = [PendingStep other_case_client ''0xABC'' 0, ConfirmedStep abc_tx 101 1]"

definition S6_steps :: "PipelineStep list" where
  "S6_steps = [PendingStep (abc_client None) ''0xabc'' 0, ConfirmedStep abc_tx 101 1]"

lemma abc_pending_step:
  "\<exists>event. processPendingTransaction formatEther now (abc_client mined) test_config ''0xabc''
       new_Pipeline = \<lparr> seenTxHashes = {''0xabc''}, onTransfer_calls = [event] \<rparr>
     \<and> ev_type event = Pending \<and> ev_txHash event = ''0xabc''
     \<and> ev_blockNumber event = mined \<and> ev_seenInMempool event"
  using test_tx_event [where formatEther = formatEther and now = now and v = "150 * 10 ^ 18"
      and h = "''0xabc''" and b = mined and type = Pending and seenInMempool = True]
  by (auto simp: processPendingTransaction_def abc_client_def abc_tx_def new_Pipeline_def
      test_tx_admitted)

lemma S6_run:
  "\<exists>event. pipeline_run formatEther test_config S6_steps new_Pipeline
       = \<lparr> seenTxHashes = {''0xabc''}, onTransfer_calls = [event] \<rparr>
     \<and> ev_type event = Pending \<and> ev_txHash event = ''0xabc''
     \<and> ev_blockNumber event = None \<and> ev_seenInMempool event"
  using abc_pending_step [of formatEther 0 None]
  by (auto simp: pipeline_run_def S6_steps_def processBlockTransaction_def abc_tx_def)

text \<open>
  C2, as stated, fails when a fetched transaction does not carry the hash it was requested
  by. The pending path tests and emits \<^verbatim>\<open>tx.hash\<close> but adds the requested \<^verbatim>\<open>txHash\<close> to
  the dedup set: \<^verbatim>\<open>0xABC\<close> enters the set, the Pending event carries \<^verbatim>\<open>0xabc\<close>, and the
  block that lists \<^verbatim>\<open>0xabc\<close> produces a Confirmed event with the same hash.
\<close>

theorem same_hash_emitted_twice:
  "map ev_type (onTransfer_calls
       (pipeline_run (\<lambda>w. ''150'') test_config other_case_steps new_Pipeline))
     = [Pending, Confirmed]
   \<and> map ev_txHash (onTransfer_calls
       (pipeline_run (\<lambda>w. ''150'') test_config other_case_steps new_Pipeline))
     = [''0xabc'', ''0xabc'']
   \<and> events_for ''0xabc''
       (pipeline_run (\<lambda>w. ''150'') test_config other_case_steps new_Pipeline) = 2"
proof -
  obtain pending where pending:
    "buildTransferEvent (\<lambda>w. ''150'') 0 abc_tx test_config Pending True = Inr pending"
    "ev_type pending = Pending" "ev_txHash pending = ''0xabc''"
    using test_tx_event [where formatEther = "\<lambda>w. ''150''" and now = 0 and v = "150 * 10 ^ 18"
        and h = "''0xabc''" and b = None and type = Pending and seenInMempool = True]
    by (auto simp: abc_tx_def test_tx_def)
  obtain confirmed where confirmed:
    "buildTransferEvent (\<lambda>w. ''150'') 1 (abc_tx \<lparr> tx_blockNumber := Some 101 \<rparr>) test_config
       Confirmed False = Inr confirmed"
    "ev_type confirmed = Confirmed" "ev_txHash confirmed = ''0xabc''"
    using test_tx_event [where formatEther = "\<lambda>w. ''150''" and now = 1 and v = "150 * 10 ^ 18"
        and h = "''0xabc''" and b = "Some 101" and type = Confirmed and seenInMempool = False]
    by (auto simp: abc_tx_def)
  have admitted: "shouldProcessTransaction abc_tx test_config {}"
    "shouldProcessTransaction (abc_tx \<lparr> tx_blockNumber := Some 101 \<rparr>) test_config {''0xABC''}"
    using test_tx_admitted [where v = "150 * 10 ^ 18" and h = "''0xabc''" and b = None
        and seen = "{}"]
      test_tx_admitted [where v = "150 * 10 ^ 18" and h = "''0xabc''" and b = "Some 101"
        and seen = "{''0xABC''}"]
    by (simp_all add: abc_tx_def test_tx_def)
  have "onTransfer_calls (pipeline_run (\<lambda>w. ''150'') test_config other_case_steps new_Pipeline)
      = [pending, confirmed]"
    using pending(1) confirmed(1) admitted
    by (simp add: pipeline_run_def other_case_steps_def other_case_client_def new_Pipeline_def
        processPendingTransaction_def processBlockTransaction_def Let_def)
       (simp add: abc_tx_def)
  with pending confirmed show ?thesis
    by (simp add: events_for_def)
qed

text \<open>
  C2 (amended). Start from the empty dedup set and run any sequence of pending and
  confirmed steps in which every transaction that \<^verbatim>\<open>getTransaction\<close> returns carries the
  hash it was requested by. Then for every hash \<open>h\<close> the sink has received at most one
  event with that hash; every hash that reached the sink is in the dedup set; and
  \<open>processBlockTransaction\<close> on a transaction whose hash is in the dedup set changes
  nothing, so it emits no confirmed event.
\<close>

theorem at_most_once_emission:
  assumes "list_all fetch_returns_requested steps"
  shows "events_for h (pipeline_run formatEther config steps new_Pipeline) \<le> 1
    \<and> ev_txHash ` set (onTransfer_calls (pipeline_run formatEther config steps new_Pipeline))
         \<subseteq> seenTxHashes (pipeline_run formatEther config steps new_Pipeline)
    \<and> (tx_hash tx \<in> seenTxHashes (pipeline_run formatEther config steps new_Pipeline) \<longrightarrow>
         processBlockTransaction formatEther now tx blockNumber config
           (pipeline_run formatEther config steps new_Pipeline)
         = pipeline_run formatEther config steps new_Pipeline)"
proof -
  have "emitted_once new_Pipeline"
    by (simp add: emitted_once_def new_Pipeline_def)
  then have once: "emitted_once (pipeline_run formatEther config steps new_Pipeline)"
    using assms by (rule pipeline_run_emitted_once)
  then have "distinct (map ev_txHash
      (onTransfer_calls (pipeline_run formatEther config steps new_Pipeline)))"
    by (simp add: emitted_once_def)
  then have "events_for h (pipeline_run formatEther config steps new_Pipeline) \<le> 1"
    unfolding events_for_def by (rule distinct_filter_le_one)
  moreover from once
  have "ev_txHash ` set (onTransfer_calls (pipeline_run formatEther config steps new_Pipeline))
         \<subseteq> seenTxHashes (pipeline_run formatEther config steps new_Pipeline)"
    by (simp add: emitted_once_def)
  ultimately show ?thesis
    by (simp add: processBlockTransaction_seen)
qed

text \<open>
  Scenario S6: \<^verbatim>\<open>0xabc\<close> is fetched as pending and emitted, then a block delivers the
  same hash. The sink holds one event for \<^verbatim>\<open>0xabc\<close>, the pending one.
\<close>

theorem at_most_once_emission_witness:
  "list_all fetch_returns_requested S6_steps
   \<and> events_for ''0xabc'' (pipeline_run (\<lambda>w. ''150'') test_config S6_steps new_Pipeline) \<le> 1
   \<and> map ev_type (onTransfer_calls (pipeline_run (\<lambda>w. ''150'') test_config S6_steps new_Pipeline))
       = [Pending]"
proof -
  have fetched: "list_all fetch_returns_requested S6_steps"
    by (simp add: S6_steps_def abc_client_def abc_tx_def test_tx_def)
  have "map ev_type (onTransfer_calls (pipeline_run (\<lambda>w. ''150'') test_config S6_steps new_Pipeline))
       = [Pending]"
    using S6_run [of "\<lambda>w. ''150''"] by auto
  with fetched at_most_once_emission [OF fetched, of "''0xabc''" "\<lambda>w. ''150''" test_config]
  show ?thesis by simp
qed


text \<open>
  An event is well-formed when its flag agrees with its type and a confirmed event has a
  block number.
\<close>

definition event_flags_ok :: "TransferEvent \<Rightarrow> bool" where
  "event_flags_ok event \<longleftrightarrow>
     (ev_seenInMempool event \<longleftrightarrow> ev_type event = Pending)
     \<and> (ev_type event = Confirmed \<longrightarrow> ev_blockNumber event \<noteq> None)"

lemma processPendingTransaction_calls:
  "onTransfer_calls (processPendingTransaction formatEther now client config txHash s)
     = onTransfer_calls s
   \<or> (\<exists>tx event. getTransaction client txHash = Inr (Some tx)
         \<and> onTransfer_calls (processPendingTransaction formatEther now client config txHash s)
             = onTransfer_calls s @ [event]
         \<and> ev_type event = Pending \<and> ev_seenInMempool event
         \<and> ev_blockNumber event = tx_blockNumber tx)"
  by (auto simp: processPendingTransaction_def Let_def dest!: buildTransferEvent_fields
      split: sum.splits option.splits)

lemma processBlockTransaction_calls:
  "onTransfer_calls (processBlockTransaction formatEther now tx blockNumber config s)
     = onTransfer_calls s
   \<or> (\<exists>event. onTransfer_calls (processBlockTransaction formatEther now tx blockNumber config s)
             = onTransfer_calls s @ [event]
         \<and> ev_type event = Confirmed \<and> \<not> ev_seenInMempool event
         \<and> ev_blockNumber event = Some blockNumber)"
  by (auto simp: processBlockTransaction_def Let_def dest!: buildTransferEvent_fields
      split: sum.splits)

lemma processBlock_loop_calls:
  "\<exists>new. onTransfer_calls (processBlock_loop formatEther now i blockNumber config txs s)
            = onTransfer_calls s @ new
     \<and> list_all (\<lambda>event. ev_type event = Confirmed \<and> \<not> ev_seenInMempool event
                    \<and> ev_blockNumber event = Some blockNumber) new"
proof (induction formatEther now i blockNumber config txs s rule: processBlock_loop.induct)
  case (1 formatEther now i blockNumber config s)
  show ?case by simp
next
  case (2 formatEther now i blockNumber config h txs s)
  then show ?case by simp
next
  case (3 formatEther now i blockNumber config tx txs s)
  let ?s1 = "processBlockTransaction formatEther (now i) tx blockNumber config s"
  from 3 obtain new where new:
    "onTransfer_calls (processBlock_loop formatEther now (Suc i) blockNumber config txs ?s1)
       = onTransfer_calls ?s1 @ new"
    "list_all (\<lambda>event. ev_type event = Confirmed \<and> \<not> ev_seenInMempool event
                    \<and> ev_blockNumber event = Some blockNumber) new"
    by blast
  from processBlockTransaction_calls [of formatEther "now i" tx blockNumber config s]
  show ?case
  proof
    assume "onTransfer_calls ?s1 = onTransfer_calls s"
    with new show ?thesis by auto
  next
    assume "\<exists>event. onTransfer_calls ?s1 = onTransfer_calls s @ [event]
         \<and> ev_type event = Confirmed \<and> \<not> ev_seenInMempool event
         \<and> ev_blockNumber event = Some blockNumber"
    then obtain event where "onTransfer_calls ?s1 = onTransfer_calls s @ [event]"
      "ev_type event = Confirmed" "\<not> ev_seenInMempool event"
      "ev_blockNumber event = Some blockNumber"
      by blast
    with new show ?thesis
      by (intro exI [of _ "event # new"]) simp
  qed
qed

lemma pipeline_step_flags_ok:
  assumes "list_all event_flags_ok (onTransfer_calls s)"
  shows "list_all event_flags_ok (onTransfer_calls (pipeline_step formatEther config s step))"
proof (cases step)
  case (PendingStep client txHash now)
  with assms processPendingTransaction_calls [of formatEther now client config txHash s]
  show ?thesis by (auto simp: event_flags_ok_def)
next
  case (ConfirmedStep tx blockNumber now)
  with assms processBlockTransaction_calls [of formatEther now tx blockNumber config s]
  show ?thesis by (auto simp: event_flags_ok_def)
qed

lemma pipeline_run_flags_ok:
  "list_all event_flags_ok (onTransfer_calls s) \<Longrightarrow>
     list_all event_flags_ok (onTransfer_calls (pipeline_run formatEther config steps s))"
  unfolding pipeline_run_def
  by (induction steps arbitrary: s) (simp_all add: pipeline_step_flags_ok)

text \<open>
  C7, as stated, fails on the pending path when the node answers \<^verbatim>\<open>getTransaction\<close>
  with a transaction that is already mined in block 12345: the event is emitted with type
  Pending and carries that block number.
\<close>

theorem pending_event_with_blockNumber:
  "map ev_type (onTransfer_calls (processPendingTransaction (\<lambda>w. ''150'') 0
       (abc_client (Some 12345)) test_config ''0xabc'' new_Pipeline)) = [Pending]
   \<and> map ev_blockNumber (onTransfer_calls (processPendingTransaction (\<lambda>w. ''150'') 0
       (abc_client (Some 12345)) test_config ''0xabc'' new_Pipeline)) = [Some 12345]"
  using abc_pending_step [of "\<lambda>w. ''150''" 0 "Some 12345"] by auto

text \<open>
  C7 (amended). A call of \<open>processPendingTransaction\<close> hands the sink at most one event;
  that event has type Pending, \<open>seenInMempool = true\<close> and the \<open>blockNumber\<close> of the
  transaction as the node returned it (none when the node returned none). A call of
  \<open>processBlockTransaction\<close> hands the sink at most one event; it has type Confirmed,
  \<open>seenInMempool = false\<close> and the block number it was called with, and every event that
  \<open>processBlock\<close> emits carries the number of that block. Hence in every run from the
  empty pipeline each event has \<open>seenInMempool\<close> true exactly when it is Pending, and
  every Confirmed event has a block number.
\<close>

theorem emitted_event_fields:
  "(onTransfer_calls (processPendingTransaction formatEther now client config txHash s)
      = onTransfer_calls s
    \<or> (\<exists>tx event. getTransaction client txHash = Inr (Some tx)
          \<and> onTransfer_calls (processPendingTransaction formatEther now client config txHash s)
              = onTransfer_calls s @ [event]
          \<and> ev_type event = Pending \<and> ev_seenInMempool event
          \<and> ev_blockNumber event = tx_blockNumber tx))
   \<and> (onTransfer_calls (processBlockTransaction formatEther now tx blockNumber config s)
      = onTransfer_calls s
    \<or> (\<exists>event. onTransfer_calls (processBlockTransaction formatEther now tx blockNumber config s)
              = onTransfer_calls s @ [event]
          \<and> ev_type event = Confirmed \<and> \<not> ev_seenInMempool event
          \<and> ev_blockNumber event = Some blockNumber))
   \<and> (\<exists>new. onTransfer_calls (processBlock formatEther clock block config s)
              = onTransfer_calls s @ new
          \<and> list_all (\<lambda>event. ev_type event = Confirmed \<and> \<not> ev_seenInMempool event
                         \<and> ev_blockNumber event = number block) new)
   \<and> list_all event_flags_ok
        (onTransfer_calls (pipeline_run formatEther config steps new_Pipeline))"
proof -
  have "\<exists>new. onTransfer_calls (processBlock formatEther clock block config s)
              = onTransfer_calls s @ new
          \<and> list_all (\<lambda>event. ev_type event = Confirmed \<and> \<not> ev_seenInMempool event
                         \<and> ev_blockNumber event = number block) new"
  proof (cases "transactions block = [] \<or> number block = None")
    case True
    then have "processBlock formatEther clock block config s = s"
      by (auto simp: processBlock_def)
    then show ?thesis by simp
  next
    case False
    then obtain blockNumber where "number block = Some blockNumber" by auto
    with False processBlock_loop_calls [of formatEther clock 0 blockNumber config "transactions block" s]
    show ?thesis by (simp add: processBlock_def)
  qed
  moreover have "list_all event_flags_ok
        (onTransfer_calls (pipeline_run formatEther config steps new_Pipeline))"
    by (rule pipeline_run_flags_ok) (simp add: new_Pipeline_def)
  ultimately show ?thesis
    using processPendingTransaction_calls [of formatEther now client config txHash s]
      processBlockTransaction_calls [of formatEther now tx blockNumber config s]
    by blast
qed

text \<open>
  The run of scenario S6 leaves one event in the sink: it is Pending, has
  \<open>seenInMempool = true\<close> and, the node having returned no block number, none.
\<close>

theorem emitted_event_fields_witness:
  "list_all event_flags_ok
     (onTransfer_calls (pipeline_run (\<lambda>w. ''150'') test_config S6_steps new_Pipeline))
   \<and> map ev_seenInMempool
       (onTransfer_calls (pipeline_run (\<lambda>w. ''150'') test_config S6_steps new_Pipeline)) = [True]
   \<and> map ev_blockNumber
       (onTransfer_calls (pipeline_run (\<lambda>w. ''150'') test_config S6_steps new_Pipeline)) = [None]"
proof -
  have "onTransfer_calls (pipeline_run (\<lambda>w. ''150'') test_config S6_steps new_Pipeline) \<noteq> []
    \<and> map ev_seenInMempool
       (onTransfer_calls (pipeline_run (\<lambda>w. ''150'') test_config S6_steps new_Pipeline)) = [True]
    \<and> map ev_blockNumber
       (onTransfer_calls (pipeline_run (\<lambda>w. ''150'') test_config S6_steps new_Pipeline)) = [None]"
    using S6_run [of "\<lambda>w. ''150''"] by auto
  with emitted_event_fields [of "\<lambda>w. ''150''" 0 "abc_client None" test_config "''0xabc''"
      new_Pipeline abc_tx 101 "\<lambda>i. 0" "\<lparr> number = None, transactions = [] \<rparr>" S6_steps]
  show ?thesis by blast
qed


section \<open>The block continuity engine (\<^verbatim>\<open>watcher/blockContinuity.ts\<close>)\<close>

text \<open>
  \<^verbatim>\<open>BlockContinuityConfig\<close>. What the engine sees of a callback is whether it returns or
  throws: \<open>onBlock block = None\<close> when the callback completes, \<open>Some e\<close> when it throws
  \<open>e\<close>. \<^verbatim>\<open>onError\<close> is optional.
\<close>

record BlockContinuityConfig =
  onBlock :: "Block \<Rightarrow> error option"
  onError :: "(error \<Rightarrow> error option) option"

text \<open>
  The fields of the class, and three records of what it did: the blocks handed to
  \<^verbatim>\<open>onBlock\<close>, the errors handed to \<^verbatim>\<open>onError\<close>, and every value assigned to
  \<^verbatim>\<open>lastProcessedBlockNumber\<close>, each oldest first.
\<close>

record BlockContinuityManager =
  lastProcessedBlockNumber :: "int option"
  isInitialized :: bool
  config :: BlockContinuityConfig
  client :: Client
  onBlock_calls :: "Block list"
  onError_calls :: "error list"
  lastProcessed_writes :: "int list"

definition new_BlockContinuityManager ::
  "Client \<Rightarrow> BlockContinuityConfig \<Rightarrow> BlockContinuityManager" where
  "new_BlockContinuityManager cl cfg =
     \<lparr> lastProcessedBlockNumber = None, isInitialized = False, config = cfg, client = cl,
       onBlock_calls = [], onError_calls = [], lastProcessed_writes = [] \<rparr>"

text \<open>The assignment \<^verbatim>\<open>this.lastProcessedBlockNumber = v\<close>.\<close>

definition set_lastProcessed :: "int \<Rightarrow> BlockContinuityManager \<Rightarrow> BlockContinuityManager" where
  "set_lastProcessed v m =
     m \<lparr> lastProcessedBlockNumber := Some v,
         lastProcessed_writes := lastProcessed_writes m @ [v] \<rparr>"

text \<open>
  Every method is \<^verbatim>\<open>async\<close>; its result is the pair of how the promise settles
  (\<open>None\<close>: resolved, \<open>Some e\<close>: rejected with \<open>e\<close>) and the state it leaves.
\<close>

definition initialize :: "BlockContinuityManager \<Rightarrow> error option \<times> BlockContinuityManager" where
  "initialize m =
     (if isInitialized m then (None, m)
      else case getBlockNumber (client m) of
             Inl e \<Rightarrow> (Some e, m)
           | Inr latestBlockNumber \<Rightarrow>
               (None, (set_lastProcessed latestBlockNumber m) \<lparr> isInitialized := True \<rparr>))"

definition fetchAndProcessBlock ::
  "int \<Rightarrow> BlockContinuityManager \<Rightarrow> error option \<times> BlockContinuityManager" where
  "fetchAndProcessBlock blockNumber m =
     (case getBlock (client m) blockNumber of
        Inl e \<Rightarrow> (Some e, m)
      | Inr block \<Rightarrow>
          (onBlock (config m) block, m \<lparr> onBlock_calls := onBlock_calls m @ [block] \<rparr>))"

text \<open>
  The \<^verbatim>\<open>for\<close> loop of \<^verbatim>\<open>backfillBlocks\<close>, from \<open>blockNum\<close> to \<open>endBlock\<close>
  inclusive. A failed block is reported to \<^verbatim>\<open>onError\<close> when there is one, and the loop
  goes on; an exception thrown by \<^verbatim>\<open>onError\<close> itself is not caught and ends the loop.
\<close>

function backfillBlocks_loop ::
  "int \<Rightarrow> int \<Rightarrow> BlockContinuityManager \<Rightarrow> error option \<times> BlockContinuityManager" where
  "backfillBlocks_loop blockNum endBlock m =
     (if blockNum \<le> endBlock then
        (case fetchAndProcessBlock blockNum m of
           (None, m1) \<Rightarrow>
             backfillBlocks_loop (blockNum + 1) endBlock (set_lastProcessed blockNum m1)
         | (Some e, m1) \<Rightarrow>
             (case onError (config m1) of
                None \<Rightarrow> backfillBlocks_loop (blockNum + 1) endBlock m1
              | Some handler \<Rightarrow>
                  (case handler e of
                     None \<Rightarrow>
                       backfillBlocks_loop (blockNum + 1) endBlock
                         (m1 \<lparr> onError_calls := onError_calls m1 @ [e] \<rparr>)
                   | Some thrown \<Rightarrow>
                       (Some thrown, m1 \<lparr> onError_calls := onError_calls m1 @ [e] \<rparr>))))
      else (None, m))"
  by pat_completeness auto
termination
  by (relation "measure (\<lambda>(blockNum, endBlock, m). nat (endBlock + 1 - blockNum))") auto

declare backfillBlocks_loop.simps [simp del]

definition backfillBlocks ::
  "int \<Rightarrow> int \<Rightarrow> BlockContinuityManager \<Rightarrow> error option \<times> BlockContinuityManager" where
  "backfillBlocks startBlock endBlock m = backfillBlocks_loop startBlock endBlock m"

text \<open>
  \<^verbatim>\<open>fetchAndProcessBlock\<close> followed by the assignment of \<open>newBlockNumber\<close>, as it
  stands in three branches of \<^verbatim>\<open>processNewBlock\<close>: the assignment is skipped when the
  fetch throws.
\<close>

definition fetch_then_advance ::
  "int \<Rightarrow> BlockContinuityManager \<Rightarrow> error option \<times> BlockContinuityManager" where
  "fetch_then_advance newBlockNumber m =
     (case fetchAndProcessBlock newBlockNumber m of
        (Some e, m1) \<Rightarrow> (Some e, m1)
      | (None, m1) \<Rightarrow> (None, set_lastProcessed newBlockNumber m1))"

definition processNewBlock ::
  "int \<Rightarrow> BlockContinuityManager \<Rightarrow> error option \<times> BlockContinuityManager" where
  "processNewBlock newBlockNumber m =
     (case (if \<not> isInitialized m then initialize m else (None, m)) of
        (Some e, m0) \<Rightarrow> (Some e, m0)
      | (None, m0) \<Rightarrow>
          (case lastProcessedBlockNumber m0 of
             None \<Rightarrow> fetch_then_advance newBlockNumber m0
           | Some lastProcessed \<Rightarrow>
               (let expectedBlockNumber = lastProcessed + 1 in
                if newBlockNumber = expectedBlockNumber then
                  fetch_then_advance newBlockNumber m0
                else if newBlockNumber > expectedBlockNumber then
                  (case backfillBlocks expectedBlockNumber (newBlockNumber - 1) m0 of
                     (Some e, m1) \<Rightarrow> (Some e, m1)
                   | (None, m1) \<Rightarrow> fetch_then_advance newBlockNumber m1)
                else if newBlockNumber \<le> lastProcessed then (None, m0)
                else (None, m0))))"

text \<open>
  \<^verbatim>\<open>handleReconnection\<close>. The first test of the source,
  \<^verbatim>\<open>!isInitialized || lastProcessedBlockNumber === null\<close>, is the \<open>None\<close> case together
  with the test on \<open>isInitialized\<close>; both lead to \<open>initialize\<close>.
\<close>

definition handleReconnection ::
  "Client \<Rightarrow> BlockContinuityManager \<Rightarrow> error option \<times> BlockContinuityManager" where
  "handleReconnection newClient m =
     (let m0 = m \<lparr> client := newClient \<rparr> in
      case lastProcessedBlockNumber m0 of
        None \<Rightarrow> initialize m0
      | Some lastProcessed \<Rightarrow>
          if \<not> isInitialized m0 then initialize m0
          else (case getBlockNumber (client m0) of
                  Inl e \<Rightarrow> (Some e, m0)
                | Inr latestBlockNumber \<Rightarrow>
                    if latestBlockNumber > lastProcessed then
                      (case backfillBlocks (lastProcessed + 1) latestBlockNumber m0 of
                         (Some e, m1) \<Rightarrow> (Some e, m1)
                       | (None, m1) \<Rightarrow> (None, set_lastProcessed latestBlockNumber m1))
                    else if latestBlockNumber = lastProcessed then (None, m0)
                    else (None, set_lastProcessed latestBlockNumber m0)))"

text \<open>
  A run of the engine: operations called one after the other on one manager. A call that
  rejects leaves the state it reached, and the next call starts from it.
\<close>

datatype ContinuityOp =
    Initialize
  | ProcessNewBlock int
  | HandleReconnection Client

fun continuity_op ::
  "ContinuityOp \<Rightarrow> BlockContinuityManager \<Rightarrow> error option \<times> BlockContinuityManager" where
  "continuity_op Initialize m = initialize m"
| "continuity_op (ProcessNewBlock n) m = processNewBlock n m"
| "continuity_op (HandleReconnection newClient) m = handleReconnection newClient m"

fun continuity_run :: "ContinuityOp list \<Rightarrow> BlockContinuityManager \<Rightarrow> BlockContinuityManager" where
  "continuity_run [] m = m"
| "continuity_run (op # ops) m = continuity_run ops (snd (continuity_op op m))"

text \<open>The errors that the calls of a run rejected with, in order.\<close>

fun continuity_rejections :: "ContinuityOp list \<Rightarrow> BlockContinuityManager \<Rightarrow> error list" where
  "continuity_rejections [] m = []"
| "continuity_rejections (op # ops) m =
     (case fst (continuity_op op m) of None \<Rightarrow> [] | Some e \<Rightarrow> [e])
     @ continuity_rejections ops (snd (continuity_op op m))"

text \<open>
  The mock node of the repository's tests: its head is \<open>head\<close>, \<^verbatim>\<open>getBlock\<close> returns an
  empty block with the requested number, except for the numbers in \<open>failing\<close>, where it
  rejects. The callbacks of the tests return normally.
\<close>

definition mock_client :: "int \<Rightarrow> int list \<Rightarrow> Client" where
  "mock_client head failing =
     \<lparr> getBlockNumber = Inr head,
       getBlock = (\<lambda>n. if n \<in> set failing then Inl (Error ''Failed to fetch block'')
                       else Inr \<lparr> number = Some n, transactions = [] \<rparr>),
       getTransaction = (\<lambda>h. Inr None) \<rparr>"

definition mock_config :: BlockContinuityConfig where
  "mock_config = \<lparr> onBlock = (\<lambda>block. None), onError = Some (\<lambda>e. None) \<rparr>"

text \<open>
  The blocks the node returns for the numbers \<open>a\<close> to \<open>b\<close>, in ascending order of the
  numbers; a number whose fetch is rejected contributes none.
\<close>

definition fetched_blocks :: "Client \<Rightarrow> int \<Rightarrow> int \<Rightarrow> Block list" where
  "fetched_blocks cl a b =
     concat (map (\<lambda>k. case getBlock cl k of Inl e \<Rightarrow> [] | Inr block \<Rightarrow> [block]) [a..b])"

text \<open>
  The failures of \<^verbatim>\<open>fetchAndProcessBlock\<close> on the numbers \<open>a\<close> to \<open>b\<close>, in ascending
  order: the rejection of the fetch, or else what \<open>onBlock\<close> throws on the block.
\<close>

definition reported_errors :: "Client \<Rightarrow> BlockContinuityConfig \<Rightarrow> int \<Rightarrow> int \<Rightarrow> error list" where
  "reported_errors cl cfg a b =
     concat (map (\<lambda>k. case getBlock cl k of
                         Inl e \<Rightarrow> [e]
                       | Inr block \<Rightarrow> (case onBlock cfg block of None \<Rightarrow> [] | Some e \<Rightarrow> [e]))
                 [a..b])"

text \<open>The configured \<^verbatim>\<open>onError\<close>, if any, returns normally on each of the errors.\<close>

definition handler_accepts :: "BlockContinuityConfig \<Rightarrow> error list \<Rightarrow> bool" where
  "handler_accepts cfg es =
     (case onError cfg of None \<Rightarrow> True | Some handler \<Rightarrow> list_all (\<lambda>e. handler e = None) es)"

text \<open>
  \<^verbatim>\<open>fetchAndProcessBlock\<close> succeeds on \<open>k\<close>: the node returns the block numbered \<open>k\<close>
  and \<open>onBlock\<close> completes on it.
\<close>

definition fetch_succeeds :: "Client \<Rightarrow> BlockContinuityConfig \<Rightarrow> int \<Rightarrow> bool" where
  "fetch_succeeds cl cfg k =
     (case getBlock cl k of
        Inl e \<Rightarrow> False
      | Inr block \<Rightarrow> number block = Some k \<and> onBlock cfg block = None)"

text \<open>Scenario S3: initialized at 100, heads 101 and 105, block 103 failing.\<close>

text \<open>
  Scenario S3 with an error callback that throws the error it is given: the same node, the
  same heads.
\<close>

definition throwing_config :: BlockContinuityConfig where
  "throwing_config = \<lparr> onBlock = (\<lambda>block. None), onError = Some (\<lambda>e. Some e) \<rparr>"

definition S3_ops :: "ContinuityOp list" where
  "S3_ops = [Initialize, ProcessNewBlock 101, ProcessNewBlock 105]"

definition S3_run :: BlockContinuityManager where
  "S3_run = continuity_run [Initialize, ProcessNewBlock 101, ProcessNewBlock 105]
              (new_BlockContinuityManager (mock_client 100 [103]) mock_config)"

subsection \<open>Properties of the continuity engine\<close>

lemma fetched_blocks_rec:
  "a \<le> b \<Longrightarrow> fetched_blocks cl a b =
     (case getBlock cl a of Inl e \<Rightarrow> [] | Inr block \<Rightarrow> [block]) @ fetched_blocks cl (a + 1) b"
  by (simp add: fetched_blocks_def upto_rec1 [of a b])

lemma fetched_blocks_empty: "b < a \<Longrightarrow> fetched_blocks cl a b = []"
  by (simp add: fetched_blocks_def)

lemma reported_errors_rec:
  "a \<le> b \<Longrightarrow> reported_errors cl cfg a b =
     (case getBlock cl a of
        Inl e \<Rightarrow> [e]
      | Inr block \<Rightarrow> (case onBlock cfg block of None \<Rightarrow> [] | Some e \<Rightarrow> [e]))
     @ reported_errors cl cfg (a + 1) b"
  by (simp add: reported_errors_def upto_rec1 [of a b])

lemma reported_errors_empty: "b < a \<Longrightarrow> reported_errors cl cfg a b = []"
  by (simp add: reported_errors_def)

lemma fetchAndProcessBlock_fields:
  "client (snd (fetchAndProcessBlock k m)) = client m"
  "config (snd (fetchAndProcessBlock k m)) = config m"
  "isInitialized (snd (fetchAndProcessBlock k m)) = isInitialized m"
  "lastProcessedBlockNumber (snd (fetchAndProcessBlock k m)) = lastProcessedBlockNumber m"
  "lastProcessed_writes (snd (fetchAndProcessBlock k m)) = lastProcessed_writes m"
  "onError_calls (snd (fetchAndProcessBlock k m)) = onError_calls m"
  "onBlock_calls (snd (fetchAndProcessBlock k m)) =
     onBlock_calls m @ (case getBlock (client m) k of Inl e \<Rightarrow> [] | Inr block \<Rightarrow> [block])"
  "fst (fetchAndProcessBlock k m) =
     (case getBlock (client m) k of Inl e \<Rightarrow> Some e | Inr block \<Rightarrow> onBlock (config m) block)"
  by (simp_all add: fetchAndProcessBlock_def split: sum.splits)

text \<open>What a backfill does when every error it reports is accepted by the handler.\<close>

lemma backfillBlocks_loop_effect:
  assumes "handler_accepts (config m) (reported_errors (client m) (config m) a b)"
  shows "fst (backfillBlocks_loop a b m) = None
    \<and> client (snd (backfillBlocks_loop a b m)) = client m
    \<and> config (snd (backfillBlocks_loop a b m)) = config m
    \<and> isInitialized (snd (backfillBlocks_loop a b m)) = isInitialized m
    \<and> onBlock_calls (snd (backfillBlocks_loop a b m))
        = onBlock_calls m @ fetched_blocks (client m) a b
    \<and> onError_calls (snd (backfillBlocks_loop a b m))
        = onError_calls m @ (if onError (config m) = None then []
                             else reported_errors (client m) (config m) a b)"
  using assms
proof (induction "nat (b + 1 - a)" arbitrary: a m)
  case 0
  then have "b < a" by simp
  then show ?case
    by (simp add: backfillBlocks_loop.simps [of a b m] fetched_blocks_empty reported_errors_empty)
next
  case (Suc d)
  then have le: "a \<le> b" and d: "d = nat (b + 1 - (a + 1))" by simp_all
  obtain r m1 where f: "fetchAndProcessBlock a m = (r, m1)" by force
  from fetchAndProcessBlock_fields [of a m] f
  have m1: "client m1 = client m" "config m1 = config m" "isInitialized m1 = isInitialized m"
    "onError_calls m1 = onError_calls m"
    "onBlock_calls m1 = onBlock_calls m
       @ (case getBlock (client m) a of Inl e \<Rightarrow> [] | Inr block \<Rightarrow> [block])"
    "r = (case getBlock (client m) a of Inl e \<Rightarrow> Some e | Inr block \<Rightarrow> onBlock (config m) block)"
    by simp_all
  have errs: "reported_errors (client m) (config m) a b
      = (case r of None \<Rightarrow> [] | Some e \<Rightarrow> [e]) @ reported_errors (client m) (config m) (a + 1) b"
    using le m1(6) by (simp add: reported_errors_rec split: sum.splits)
  show ?case
  proof (cases r)
    case None
    let ?m2 = "set_lastProcessed a m1"
    have m2: "client ?m2 = client m" "config ?m2 = config m"
      "isInitialized ?m2 = isInitialized m" "onError_calls ?m2 = onError_calls m"
      "onBlock_calls ?m2 = onBlock_calls m1"
      using m1 by (simp_all add: set_lastProcessed_def)
    have "handler_accepts (config ?m2) (reported_errors (client ?m2) (config ?m2) (a + 1) b)"
      using Suc.prems errs None m2 by simp
    from Suc.hyps(1) [OF d this]
    show ?thesis
      using le f None m2 m1 errs
      by (simp add: backfillBlocks_loop.simps [of a b m] fetched_blocks_rec)
  next
    case (Some e)
    show ?thesis
    proof (cases "onError (config m)")
      case None
      have "handler_accepts (config m1) (reported_errors (client m1) (config m1) (a + 1) b)"
        using None m1 by (simp add: handler_accepts_def)
      from Suc.hyps(1) [OF d this]
      show ?thesis
        using le f Some None m1
        by (simp add: backfillBlocks_loop.simps [of a b m] fetched_blocks_rec)
    next
      case (Some handler)
      let ?m2 = "m1 \<lparr> onError_calls := onError_calls m1 @ [e] \<rparr>"
      from Suc.prems errs \<open>r = Some e\<close> Some
      have acc: "handler e = None"
        "handler_accepts (config ?m2) (reported_errors (client ?m2) (config ?m2) (a + 1) b)"
        using m1 by (simp_all add: handler_accepts_def)
      from Suc.hyps(1) [OF d acc(2)]
      show ?thesis
        using le f \<open>r = Some e\<close> Some m1 acc(1) errs
        by (simp add: backfillBlocks_loop.simps [of a b m] fetched_blocks_rec)
    qed
  qed
qed

lemma fetch_then_advance_ok:
  assumes "getBlock (client m) n = Inr block" and "onBlock (config m) block = None"
  shows "fetch_then_advance n m
     = (None, set_lastProcessed n (m \<lparr> onBlock_calls := onBlock_calls m @ [block] \<rparr>))"
  using assms by (simp add: fetch_then_advance_def fetchAndProcessBlock_def)

lemma all_succeed_no_errors:
  "list_all (fetch_succeeds cl cfg) ks \<Longrightarrow>
     concat (map (\<lambda>k. case getBlock cl k of
                         Inl e \<Rightarrow> [e]
                       | Inr block \<Rightarrow> (case onBlock cfg block of None \<Rightarrow> [] | Some e \<Rightarrow> [e]))
                 ks) = []"
  by (induction ks) (auto simp: fetch_succeeds_def split: sum.splits)

lemma all_succeed_numbers:
  "list_all (fetch_succeeds cl cfg) ks \<Longrightarrow>
     map number (concat (map (\<lambda>k. case getBlock cl k of Inl e \<Rightarrow> [] | Inr block \<Rightarrow> [block]) ks))
       = map Some ks"
  by (induction ks) (auto simp: fetch_succeeds_def split: sum.splits)

lemma processNewBlock_all_succeed:
  assumes init: "isInitialized m" and lp: "lastProcessedBlockNumber m = Some n" and less: "n < h"
    and ok: "list_all (fetch_succeeds (client m) (config m)) [n + 1..h]"
  shows "fst (processNewBlock h m) = None
    \<and> isInitialized (snd (processNewBlock h m))
    \<and> lastProcessedBlockNumber (snd (processNewBlock h m)) = Some h
    \<and> client (snd (processNewBlock h m)) = client m
    \<and> config (snd (processNewBlock h m)) = config m
    \<and> map number (onBlock_calls (snd (processNewBlock h m)))
        = map number (onBlock_calls m) @ map Some [n + 1..h]
    \<and> onError_calls (snd (processNewBlock h m)) = onError_calls m"
proof -
  from less have split: "[n + 1..h] = [n + 1..h - 1] @ [h]"
    by (simp add: upto_rec2)
  with ok have before: "list_all (fetch_succeeds (client m) (config m)) [n + 1..h - 1]"
    and head: "fetch_succeeds (client m) (config m) h"
    by simp_all
  from head obtain block where block: "getBlock (client m) h = Inr block"
    "number block = Some h" "onBlock (config m) block = None"
    by (auto simp: fetch_succeeds_def split: sum.splits)
  show ?thesis
  proof (cases "h = n + 1")
    case True
    with init lp block show ?thesis
      by (simp add: processNewBlock_def fetch_then_advance_ok set_lastProcessed_def Let_def)
  next
    case False
    with less have gap: "n + 1 < h" by simp
    let ?b = "backfillBlocks_loop (n + 1) (h - 1) m"
    have none: "reported_errors (client m) (config m) (n + 1) (h - 1) = []"
      unfolding reported_errors_def using before by (rule all_succeed_no_errors)
    then have "handler_accepts (config m) (reported_errors (client m) (config m) (n + 1) (h - 1))"
      by (simp add: handler_accepts_def split: option.splits)
    from backfillBlocks_loop_effect [OF this] none
    have b: "fst ?b = None" "client (snd ?b) = client m" "config (snd ?b) = config m"
      "isInitialized (snd ?b) = isInitialized m"
      "onBlock_calls (snd ?b) = onBlock_calls m @ fetched_blocks (client m) (n + 1) (h - 1)"
      "onError_calls (snd ?b) = onError_calls m"
      by simp_all
    have numbers: "map number (fetched_blocks (client m) (n + 1) (h - 1)) = map Some [n + 1..h - 1]"
      unfolding fetched_blocks_def using before by (rule all_succeed_numbers)
    obtain m1 where m1: "?b = (None, m1)"
      using b(1) by (cases ?b) simp
    with b block have "fetch_then_advance h m1
       = (None, set_lastProcessed h (m1 \<lparr> onBlock_calls := onBlock_calls m1 @ [block] \<rparr>))"
      by (intro fetch_then_advance_ok) simp_all
    with init lp gap m1 b block numbers split show ?thesis
      by (simp add: processNewBlock_def backfillBlocks_def set_lastProcessed_def Let_def)
  qed
qed

lemma heads_all_succeed:
  assumes "isInitialized m" and "lastProcessedBlockNumber m = Some n"
    and "sorted_wrt (<) (n # ns)"
    and "list_all (fetch_succeeds (client m) (config m)) [n + 1..last (n # ns)]"
  shows "continuity_rejections (map ProcessNewBlock ns) m = []
    \<and> lastProcessedBlockNumber (continuity_run (map ProcessNewBlock ns) m) = Some (last (n # ns))
    \<and> map number (onBlock_calls (continuity_run (map ProcessNewBlock ns) m))
        = map number (onBlock_calls m) @ map Some [n + 1..last (n # ns)]
    \<and> onError_calls (continuity_run (map ProcessNewBlock ns) m) = onError_calls m"
  using assms
proof (induction ns arbitrary: m n)
  case Nil
  then show ?case by simp
next
  case (Cons h ns)
  let ?m1 = "snd (processNewBlock h m)"
  from Cons.prems(3) have less: "n < h" and rest: "sorted_wrt (<) (h # ns)"
    by simp_all
  from rest have "h \<le> last (h # ns)"
    by (induction ns arbitrary: h) (auto simp: order.strict_implies_order)
  then have split: "[n + 1..last (h # ns)] = [n + 1..h] @ [h + 1..last (h # ns)]"
    using less upto_split2 [of "n + 1" h "last (h # ns)"] by simp
  with Cons.prems(4)
  have ok1: "list_all (fetch_succeeds (client m) (config m)) [n + 1..h]"
    and ok2: "list_all (fetch_succeeds (client m) (config m)) [h + 1..last (h # ns)]"
    by simp_all
  from processNewBlock_all_succeed [OF Cons.prems(1,2) less ok1]
  have step: "fst (processNewBlock h m) = None" "isInitialized ?m1"
    "lastProcessedBlockNumber ?m1 = Some h" "client ?m1 = client m" "config ?m1 = config m"
    "map number (onBlock_calls ?m1) = map number (onBlock_calls m) @ map Some [n + 1..h]"
    "onError_calls ?m1 = onError_calls m"
    by simp_all
  from ok2 step have "list_all (fetch_succeeds (client ?m1) (config ?m1)) [h + 1..last (h # ns)]"
    by simp
  from Cons.IH [OF step(2,3) rest this] step split
  show ?case by simp
qed

lemma fetched_blocks_member:
  "a \<le> k \<Longrightarrow> k \<le> b \<Longrightarrow> getBlock cl k = Inr block \<Longrightarrow> block \<in> set (fetched_blocks cl a b)"
  by (force simp: fetched_blocks_def)

lemma mock_fetch_succeeds:
  "k \<notin> set failing \<Longrightarrow> fetch_succeeds (mock_client head failing) mock_config k"
  by (simp add: fetch_succeeds_def mock_client_def mock_config_def)

lemma mock_fields:
  "getBlockNumber (mock_client head failing) = Inr head"
  "k \<notin> set failing \<Longrightarrow>
     getBlock (mock_client head failing) k = Inr \<lparr> number = Some k, transactions = [] \<rparr>"
  "k \<in> set failing \<Longrightarrow>
     getBlock (mock_client head failing) k = Inl (Error ''Failed to fetch block'')"
  "onBlock mock_config block = None"
  "onError mock_config = Some (\<lambda>e. None)"
  by (simp_all add: mock_client_def mock_config_def)

lemma S3_result:
  "map number (onBlock_calls S3_run) = [Some 101, Some 102, Some 104, Some 105]
   \<and> length (onError_calls S3_run) = 1
   \<and> lastProcessedBlockNumber S3_run = Some 105"
  by (simp add: S3_run_def new_BlockContinuityManager_def initialize_def processNewBlock_def
      fetch_then_advance_def fetchAndProcessBlock_def set_lastProcessed_def backfillBlocks_def
      backfillBlocks_loop.simps mock_fields Let_def)

text \<open>
  C1. Initialize the engine at head \<open>n0\<close> and call \<open>processNewBlock\<close> on any strictly
  increasing heads \<open>ns\<close>, all above \<open>n0\<close>. If for every number from \<open>n0 + 1\<close> to the last
  head the fetch returns the block of that number and \<open>onBlock\<close> completes on it, then
  no call rejects, the blocks handed to \<open>onBlock\<close> are numbered \<open>n0 + 1, n0 + 2, ...\<close> up
  to the last head, in ascending order and once each, and \<open>lastProcessed\<close> ends at the
  last head.
\<close>

theorem coverage_after_initialization:
  assumes "getBlockNumber cl = Inr n0"
    and "sorted_wrt (<) (n0 # ns)"
    and "list_all (fetch_succeeds cl cfg) [n0 + 1..last (n0 # ns)]"
  shows "continuity_rejections (Initialize # map ProcessNewBlock ns)
           (new_BlockContinuityManager cl cfg) = []
    \<and> map number (onBlock_calls (continuity_run (Initialize # map ProcessNewBlock ns)
           (new_BlockContinuityManager cl cfg)))
        = map Some [n0 + 1..last (n0 # ns)]
    \<and> lastProcessedBlockNumber (continuity_run (Initialize # map ProcessNewBlock ns)
           (new_BlockContinuityManager cl cfg))
        = Some (last (n0 # ns))"
proof -
  let ?m0 = "snd (initialize (new_BlockContinuityManager cl cfg))"
  from assms(1) have init: "fst (initialize (new_BlockContinuityManager cl cfg)) = None"
    "isInitialized ?m0" "lastProcessedBlockNumber ?m0 = Some n0"
    "client ?m0 = cl" "config ?m0 = cfg" "onBlock_calls ?m0 = []"
    by (simp_all add: initialize_def new_BlockContinuityManager_def set_lastProcessed_def)
  from assms(3) init
  have "list_all (fetch_succeeds (client ?m0) (config ?m0)) [n0 + 1..last (n0 # ns)]"
    by simp
  from heads_all_succeed [OF init(2,3) assms(2) this] init
  show ?thesis by simp
qed

text \<open>
  Initialized at 100 and fed the heads 101, 105 and 106 by a node that serves every block,
  the engine hands over the blocks 101 to 106 and ends at 106.
\<close>

theorem coverage_after_initialization_witness:
  "getBlockNumber (mock_client 100 []) = Inr 100
   \<and> sorted_wrt (<) [100, 101, 105, 106 :: int]
   \<and> list_all (fetch_succeeds (mock_client 100 []) mock_config) [101..106]
   \<and> map number (onBlock_calls (continuity_run
          [Initialize, ProcessNewBlock 101, ProcessNewBlock 105, ProcessNewBlock 106]
          (new_BlockContinuityManager (mock_client 100 []) mock_config)))
       = [Some 101, Some 102, Some 103, Some 104, Some 105, Some 106]
   \<and> lastProcessedBlockNumber (continuity_run
          [Initialize, ProcessNewBlock 101, ProcessNewBlock 105, ProcessNewBlock 106]
          (new_BlockContinuityManager (mock_client 100 []) mock_config))
       = Some 106"
proof -
  have head: "getBlockNumber (mock_client 100 []) = Inr 100"
    by (simp add: mock_fields)
  have heads: "sorted_wrt (<) (100 # [101, 105, 106 :: int])"
    by simp
  have served: "list_all (fetch_succeeds (mock_client 100 []) mock_config)
      [100 + 1..last (100 # [101, 105, 106])]"
    by (simp add: mock_fetch_succeeds)
  from coverage_after_initialization [OF head heads served] head heads served
  show ?thesis by simp
qed

text \<open>
  C6, as stated, fails when \<^verbatim>\<open>onError\<close> throws: the call of \<^verbatim>\<open>onError\<close> stands in the
  \<^verbatim>\<open>catch\<close> block of the loop, unprotected. In scenario S3 with such a callback the
  failure of block 103 is reported, the exception of the callback ends the loop and
  rejects \<open>processNewBlock 105\<close>; the blocks 104 and 105 are never fetched and
  \<open>lastProcessed\<close> stays at 102.
\<close>

theorem throwing_onError_aborts_backfill:
  "map number (onBlock_calls (continuity_run S3_ops
       (new_BlockContinuityManager (mock_client 100 [103]) throwing_config)))
     = [Some 101, Some 102]
   \<and> onError_calls (continuity_run S3_ops
       (new_BlockContinuityManager (mock_client 100 [103]) throwing_config))
     = [Error ''Failed to fetch block'']
   \<and> continuity_rejections S3_ops
       (new_BlockContinuityManager (mock_client 100 [103]) throwing_config)
     = [Error ''Failed to fetch block'']
   \<and> lastProcessedBlockNumber (continuity_run S3_ops
       (new_BlockContinuityManager (mock_client 100 [103]) throwing_config))
     = Some 102"
  by (simp add: S3_ops_def throwing_config_def new_BlockContinuityManager_def initialize_def
      processNewBlock_def fetch_then_advance_def fetchAndProcessBlock_def set_lastProcessed_def
      backfillBlocks_def backfillBlocks_loop.simps mock_client_def Let_def)

text \<open>
  C6 (amended). Let the engine be initialized with \<open>lastProcessed = l\<close> and let a head
  \<open>n\<close> beyond \<open>l + 1\<close> arrive whose own fetch succeeds. Every block of the gap
  \<open>l + 1 .. n - 1\<close> is requested in turn: each block the node returns is handed to
  \<open>onBlock\<close> and each failure is handed to \<open>onError\<close> when that callback is configured.
  Provided \<open>onError\<close> returns normally on the failures it is handed, no failure stops the
  loop: the call resolves and \<open>lastProcessed\<close> is \<open>n\<close>. In scenario S3 (initialized at
  100, heads 101 and 105, block 103 failing, callbacks that return) \<open>onBlock\<close> receives
  101, 102, 104 and 105, one error is reported and \<open>lastProcessed\<close> is 105.
\<close>

theorem backfill_error_tolerance:
  assumes "isInitialized m" and "lastProcessedBlockNumber m = Some l" and "l + 1 < n"
    and "handler_accepts (config m) (reported_errors (client m) (config m) (l + 1) (n - 1))"
    and "getBlock (client m) n = Inr head" and "onBlock (config m) head = None"
  shows "fst (processNewBlock n m) = None
    \<and> lastProcessedBlockNumber (snd (processNewBlock n m)) = Some n
    \<and> onBlock_calls (snd (processNewBlock n m))
        = onBlock_calls m @ fetched_blocks (client m) (l + 1) (n - 1) @ [head]
    \<and> onError_calls (snd (processNewBlock n m))
        = onError_calls m @ (if onError (config m) = None then []
                             else reported_errors (client m) (config m) (l + 1) (n - 1))
    \<and> (\<forall>k \<in> {l + 1..n - 1}. \<forall>block. getBlock (client m) k = Inr block \<longrightarrow>
          block \<in> set (onBlock_calls (snd (processNewBlock n m))))
    \<and> map number (onBlock_calls S3_run) = [Some 101, Some 102, Some 104, Some 105]
    \<and> length (onError_calls S3_run) = 1
    \<and> lastProcessedBlockNumber S3_run = Some 105"
proof -
  let ?b = "backfillBlocks_loop (l + 1) (n - 1) m"
  from backfillBlocks_loop_effect [OF assms(4)]
  have b: "fst ?b = None" "client (snd ?b) = client m" "config (snd ?b) = config m"
    "isInitialized (snd ?b) = isInitialized m"
    "onBlock_calls (snd ?b) = onBlock_calls m @ fetched_blocks (client m) (l + 1) (n - 1)"
    "onError_calls (snd ?b) = onError_calls m
       @ (if onError (config m) = None then []
          else reported_errors (client m) (config m) (l + 1) (n - 1))"
    by simp_all
  obtain m1 where m1: "?b = (None, m1)"
    using b(1) by (cases ?b) simp
  with b assms(5,6) have "fetch_then_advance n m1
       = (None, set_lastProcessed n (m1 \<lparr> onBlock_calls := onBlock_calls m1 @ [head] \<rparr>))"
    by (intro fetch_then_advance_ok) simp_all
  with assms(1-3) m1
  have result: "processNewBlock n m
       = (None, set_lastProcessed n (m1 \<lparr> onBlock_calls := onBlock_calls m1 @ [head] \<rparr>))"
    by (simp add: processNewBlock_def backfillBlocks_def Let_def)
  from b m1 have calls:
    "onBlock_calls (snd (processNewBlock n m))
        = onBlock_calls m @ fetched_blocks (client m) (l + 1) (n - 1) @ [head]"
    by (simp add: result set_lastProcessed_def)
  have "\<forall>k \<in> {l + 1..n - 1}. \<forall>block. getBlock (client m) k = Inr block \<longrightarrow>
          block \<in> set (onBlock_calls (snd (processNewBlock n m)))"
    unfolding calls using fetched_blocks_member [of "l + 1" _ "n - 1" "client m"] by auto
  with calls b m1 S3_result show ?thesis
    by (simp add: result set_lastProcessed_def)
qed

text \<open>
  The second call of scenario S3 taken alone: the engine stands at 101, the head 105
  arrives, and block 103 fails.
\<close>

theorem backfill_error_tolerance_witness:
  "map number (onBlock_calls (snd (processNewBlock 105
       ((new_BlockContinuityManager (mock_client 100 [103]) mock_config)
          \<lparr> lastProcessedBlockNumber := Some 101, isInitialized := True \<rparr>))))
     = [Some 102, Some 104, Some 105]
   \<and> onError_calls (snd (processNewBlock 105
       ((new_BlockContinuityManager (mock_client 100 [103]) mock_config)
          \<lparr> lastProcessedBlockNumber := Some 101, isInitialized := True \<rparr>)))
     = [Error ''Failed to fetch block'']
   \<and> lastProcessedBlockNumber (snd (processNewBlock 105
       ((new_BlockContinuityManager (mock_client 100 [103]) mock_config)
          \<lparr> lastProcessedBlockNumber := Some 101, isInitialized := True \<rparr>)))
     = Some 105"
proof -
  let ?m = "(new_BlockContinuityManager (mock_client 100 [103]) mock_config)
          \<lparr> lastProcessedBlockNumber := Some 101, isInitialized := True \<rparr>"
  have fields: "isInitialized ?m" "lastProcessedBlockNumber ?m = Some 101"
    "client ?m = mock_client 100 [103]" "config ?m = mock_config"
    "onBlock_calls ?m = []" "onError_calls ?m = []"
    by (simp_all add: new_BlockContinuityManager_def)
  have gap: "(101::int) + 1 < 105" by simp
  have accepted: "handler_accepts (config ?m)
      (reported_errors (client ?m) (config ?m) (101 + 1) (105 - 1))"
    by (simp add: fields handler_accepts_def mock_fields list_all_iff)
  have head: "getBlock (client ?m) 105 = Inr \<lparr> number = Some 105, transactions = [] \<rparr>"
    "onBlock (config ?m) \<lparr> number = Some 105, transactions = [] \<rparr> = None"
    by (simp_all add: fields mock_fields)
  from backfill_error_tolerance [OF fields(1,2) gap accepted head]
  show ?thesis
    by (simp add: fields fetched_blocks_def reported_errors_def mock_fields)
qed

subsection \<open>The values assigned to \<^verbatim>\<open>lastProcessedBlockNumber\<close>\<close>

text \<open>
  The values assigned so far are in non-decreasing order, the field holds the last of
  them, and nothing was assigned before initialization.
\<close>

definition writes_ok :: "BlockContinuityManager \<Rightarrow> bool" where
  "writes_ok m \<longleftrightarrow>
     sorted (lastProcessed_writes m)
     \<and> lastProcessedBlockNumber m
         = (if lastProcessed_writes m = [] then None else Some (last (lastProcessed_writes m)))
     \<and> (isInitialized m \<or> lastProcessed_writes m = [])"

text \<open>
  A reconnection regresses when the engine is initialized and the new node reports a
  head below \<open>lastProcessed\<close>.
\<close>

fun regresses :: "ContinuityOp \<Rightarrow> BlockContinuityManager \<Rightarrow> bool" where
  "regresses (HandleReconnection newClient) m =
     (case (getBlockNumber newClient, lastProcessedBlockNumber m) of
        (Inr latestBlockNumber, Some lastProcessed) \<Rightarrow>
          isInitialized m \<and> latestBlockNumber < lastProcessed
      | _ \<Rightarrow> False)"
| "regresses op m = False"

fun no_regression :: "ContinuityOp list \<Rightarrow> BlockContinuityManager \<Rightarrow> bool" where
  "no_regression [] m = True"
| "no_regression (op # ops) m =
     (\<not> regresses op m \<and> no_regression ops (snd (continuity_op op m)))"

text \<open>
  Scenario S5: initialized at 100, heads 101 and 102, then a reconnection to a node whose
  head is 106.
\<close>

definition S5_ops :: "ContinuityOp list" where
  "S5_ops = [Initialize, ProcessNewBlock 101, ProcessNewBlock 102,
             HandleReconnection (mock_client 106 [])]"

text \<open>The engine of the tests right after initialization at head 100.\<close>

definition at_100 :: BlockContinuityManager where
  "at_100 = continuity_run [Initialize] (new_BlockContinuityManager (mock_client 100 []) mock_config)"

lemma sorted_le_last: "sorted xs \<Longrightarrow> x \<in> set xs \<Longrightarrow> x \<le> last xs"
  by (induction xs) (auto split: if_splits)

lemma writes_ok_bound:
  "writes_ok m \<Longrightarrow> lastProcessedBlockNumber m = Some l \<Longrightarrow>
     \<forall>v \<in> set (lastProcessed_writes m). v \<le> l"
  by (auto simp: writes_ok_def sorted_le_last split: if_splits)

lemma writes_ok_set_lastProcessed:
  "writes_ok m \<Longrightarrow> isInitialized m \<Longrightarrow> \<forall>v \<in> set (lastProcessed_writes m). v \<le> n \<Longrightarrow>
     writes_ok (set_lastProcessed n m)"
  by (simp add: writes_ok_def set_lastProcessed_def sorted_append)

lemma writes_ok_initialize: "writes_ok m \<Longrightarrow> writes_ok (snd (initialize m))"
  by (auto simp: initialize_def writes_ok_def set_lastProcessed_def split: sum.splits)

lemma initialize_initialized:
  "fst (initialize m) = None \<Longrightarrow> isInitialized (snd (initialize m))"
  by (auto simp: initialize_def split: sum.splits if_splits)

lemma writes_ok_fetch_then_advance:
  assumes "writes_ok m" and "isInitialized m" and "\<forall>v \<in> set (lastProcessed_writes m). v \<le> n"
  shows "writes_ok (snd (fetch_then_advance n m))"
proof -
  obtain r m1 where f: "fetchAndProcessBlock n m = (r, m1)" by force
  with fetchAndProcessBlock_fields [of n m]
  have m1: "isInitialized m1 = isInitialized m"
    "lastProcessedBlockNumber m1 = lastProcessedBlockNumber m"
    "lastProcessed_writes m1 = lastProcessed_writes m"
    by simp_all
  with assms have "writes_ok m1" "isInitialized m1" "\<forall>v \<in> set (lastProcessed_writes m1). v \<le> n"
    by (simp_all add: writes_ok_def)
  then have "writes_ok (set_lastProcessed n m1)"
    by (rule writes_ok_set_lastProcessed)
  with \<open>writes_ok m1\<close> f show ?thesis
    by (cases r) (simp_all add: fetch_then_advance_def)
qed

lemma writes_ok_backfill:
  assumes "writes_ok m" and "isInitialized m" and "\<forall>v \<in> set (lastProcessed_writes m). v < a"
  shows "writes_ok (snd (backfillBlocks_loop a b m))
    \<and> isInitialized (snd (backfillBlocks_loop a b m))
    \<and> (\<forall>v \<in> set (lastProcessed_writes (snd (backfillBlocks_loop a b m))). v < a \<or> v \<le> b)"
  using assms
proof (induction "nat (b + 1 - a)" arbitrary: a m)
  case 0
  then have "b < a" by simp
  with 0 show ?case
    by (simp add: backfillBlocks_loop.simps [of a b m])
next
  case (Suc d)
  then have le: "a \<le> b" and d: "d = nat (b + 1 - (a + 1))" by simp_all
  obtain r m1 where f: "fetchAndProcessBlock a m = (r, m1)" by force
  with fetchAndProcessBlock_fields [of a m]
  have m1: "isInitialized m1 = isInitialized m"
    "lastProcessedBlockNumber m1 = lastProcessedBlockNumber m"
    "lastProcessed_writes m1 = lastProcessed_writes m"
    by simp_all
  with Suc.prems have ok1: "writes_ok m1" "isInitialized m1"
    and below: "\<forall>v \<in> set (lastProcessed_writes m1). v < a"
    by (simp_all add: writes_ok_def)
  have weaken: "\<And>m'. \<forall>v \<in> set (lastProcessed_writes m'). v < a + 1 \<or> v \<le> b \<Longrightarrow>
      \<forall>v \<in> set (lastProcessed_writes m'). v < a \<or> v \<le> b"
    using le by force
  show ?case
  proof (cases r)
    case None
    let ?m2 = "set_lastProcessed a m1"
    from below have "\<forall>v \<in> set (lastProcessed_writes m1). v \<le> a" by force
    with ok1 have "writes_ok ?m2" by (intro writes_ok_set_lastProcessed)
    moreover have "isInitialized ?m2" using ok1 by (simp add: set_lastProcessed_def)
    moreover have "\<forall>v \<in> set (lastProcessed_writes ?m2). v < a + 1"
      using below by (force simp: set_lastProcessed_def)
    ultimately have "writes_ok (snd (backfillBlocks_loop (a + 1) b ?m2))
      \<and> isInitialized (snd (backfillBlocks_loop (a + 1) b ?m2))
      \<and> (\<forall>v \<in> set (lastProcessed_writes (snd (backfillBlocks_loop (a + 1) b ?m2))).
            v < a + 1 \<or> v \<le> b)"
      by (rule Suc.hyps(1) [OF d])
    moreover have "backfillBlocks_loop a b m = backfillBlocks_loop (a + 1) b ?m2"
      using le f None by (simp add: backfillBlocks_loop.simps [of a b m])
    ultimately show ?thesis
      using weaken by metis
  next
    case (Some e)
    let ?m2 = "m1 \<lparr> onError_calls := onError_calls m1 @ [e] \<rparr>"
    have ok2: "writes_ok ?m2" "isInitialized ?m2"
      "\<forall>v \<in> set (lastProcessed_writes ?m2). v < a + 1"
      "\<forall>v \<in> set (lastProcessed_writes m1). v < a + 1"
      using ok1 below by (force simp: writes_ok_def)+
    have rec1: "writes_ok (snd (backfillBlocks_loop (a + 1) b m1))
      \<and> isInitialized (snd (backfillBlocks_loop (a + 1) b m1))
      \<and> (\<forall>v \<in> set (lastProcessed_writes (snd (backfillBlocks_loop (a + 1) b m1))).
            v < a \<or> v \<le> b)"
      using Suc.hyps(1) [OF d ok1(1,2) ok2(4)] weaken by metis
    have rec2: "writes_ok (snd (backfillBlocks_loop (a + 1) b ?m2))
      \<and> isInitialized (snd (backfillBlocks_loop (a + 1) b ?m2))
      \<and> (\<forall>v \<in> set (lastProcessed_writes (snd (backfillBlocks_loop (a + 1) b ?m2))).
            v < a \<or> v \<le> b)"
      using Suc.hyps(1) [OF d ok2(1,2,3)] weaken by metis
    have stop: "writes_ok ?m2 \<and> isInitialized ?m2
      \<and> (\<forall>v \<in> set (lastProcessed_writes ?m2). v < a \<or> v \<le> b)"
      using ok2 below by simp
    consider (none) "onError (config m1) = None"
      | (accepted) handler where "onError (config m1) = Some handler" "handler e = None"
      | (thrown) handler e' where "onError (config m1) = Some handler" "handler e = Some e'"
      by (cases "onError (config m1)") auto
    then show ?thesis
    proof cases
      case none
      with le f Some have "backfillBlocks_loop a b m = backfillBlocks_loop (a + 1) b m1"
        by (simp add: backfillBlocks_loop.simps [of a b m])
      with rec1 show ?thesis by simp
    next
      case accepted
      with le f Some have "backfillBlocks_loop a b m = backfillBlocks_loop (a + 1) b ?m2"
        by (simp add: backfillBlocks_loop.simps [of a b m])
      with rec2 show ?thesis by simp
    next
      case thrown
      with le f Some have "backfillBlocks_loop a b m = (Some e', ?m2)"
        by (simp add: backfillBlocks_loop.simps [of a b m])
      with stop show ?thesis by simp
    qed
  qed
qed

lemma writes_ok_processNewBlock:
  assumes "writes_ok m"
  shows "writes_ok (snd (processNewBlock n m))"
proof -
  obtain r0 m0 where i: "(if \<not> isInitialized m then initialize m else (None, m)) = (r0, m0)"
    by force
  with assms have ok0: "writes_ok m0"
    using writes_ok_initialize [of m] by (auto split: if_splits)
  show ?thesis
  proof (cases r0)
    case (Some e)
    with i ok0 show ?thesis by (simp add: processNewBlock_def)
  next
    case None
    with i have init0: "isInitialized m0"
      using initialize_initialized [of m] by (auto split: if_splits)
    show ?thesis
    proof (cases "lastProcessedBlockNumber m0")
      case None
      with ok0 have "lastProcessed_writes m0 = []"
        by (simp add: writes_ok_def split: if_splits)
      with ok0 init0 have "writes_ok (snd (fetch_then_advance n m0))"
        by (intro writes_ok_fetch_then_advance) simp_all
      with i \<open>r0 = None\<close> None show ?thesis by (simp add: processNewBlock_def)
    next
      case (Some l)
      with ok0 have bound: "\<forall>v \<in> set (lastProcessed_writes m0). v \<le> l"
        by (rule writes_ok_bound)
      consider (succ) "n = l + 1" | (gap) "l + 1 < n" | (old) "n \<le> l" by linarith
      then show ?thesis
      proof cases
        case succ
        from bound have "\<forall>v \<in> set (lastProcessed_writes m0). v \<le> n"
          using succ by force
        with ok0 init0 have "writes_ok (snd (fetch_then_advance n m0))"
          by (intro writes_ok_fetch_then_advance)
        with i \<open>r0 = None\<close> Some succ show ?thesis
          by (simp add: processNewBlock_def Let_def)
      next
        case gap
        let ?b = "backfillBlocks_loop (l + 1) (n - 1) m0"
        from bound have "\<forall>v \<in> set (lastProcessed_writes m0). v < l + 1" by force
        from writes_ok_backfill [OF ok0 init0 this, of "n - 1"]
        have b0: "writes_ok (snd ?b)" "isInitialized (snd ?b)"
          "\<forall>v \<in> set (lastProcessed_writes (snd ?b)). v < l + 1 \<or> v \<le> n - 1"
          by simp_all
        from b0(3) gap have "\<forall>v \<in> set (lastProcessed_writes (snd ?b)). v \<le> n"
          by force
        with b0 have b: "writes_ok (snd ?b)" "isInitialized (snd ?b)"
          "\<forall>v \<in> set (lastProcessed_writes (snd ?b)). v \<le> n"
          by simp_all
        then have "writes_ok (snd (fetch_then_advance n (snd ?b)))"
          by (rule writes_ok_fetch_then_advance)
        with b(1) i \<open>r0 = None\<close> Some gap show ?thesis
          by (cases ?b) (auto simp: processNewBlock_def backfillBlocks_def Let_def
              split: option.splits)
      next
        case old
        with i \<open>r0 = None\<close> Some ok0 show ?thesis
          by (simp add: processNewBlock_def Let_def)
      qed
    qed
  qed
qed

lemma writes_ok_handleReconnection:
  assumes "writes_ok m" and "\<not> regresses (HandleReconnection newClient) m"
  shows "writes_ok (snd (handleReconnection newClient m))"
proof -
  let ?m0 = "m \<lparr> client := newClient \<rparr>"
  from assms(1) have ok0: "writes_ok ?m0" by (simp add: writes_ok_def)
  show ?thesis
  proof (cases "lastProcessedBlockNumber m")
    case None
    with writes_ok_initialize [OF ok0] show ?thesis
      by (simp add: handleReconnection_def)
  next
    case (Some l)
    show ?thesis
    proof (cases "isInitialized m")
      case False
      with Some writes_ok_initialize [OF ok0] show ?thesis
        by (simp add: handleReconnection_def)
    next
      case True
      show ?thesis
      proof (cases "getBlockNumber newClient")
        case (Inl e)
        with Some True ok0 show ?thesis by (simp add: handleReconnection_def)
      next
        case (Inr latest)
        with assms(2) Some True have ge: "l \<le> latest" by simp
        from ok0 Some have bound: "\<forall>v \<in> set (lastProcessed_writes ?m0). v \<le> l"
          by (intro writes_ok_bound) simp_all
        show ?thesis
        proof (cases "latest = l")
          case True
          with Some \<open>isInitialized m\<close> Inr ok0 show ?thesis
            by (simp add: handleReconnection_def)
        next
          case False
          with ge have gt: "l < latest" by simp
          let ?b = "backfillBlocks_loop (l + 1) latest ?m0"
          from bound have "\<forall>v \<in> set (lastProcessed_writes ?m0). v < l + 1" by force
          moreover have "isInitialized ?m0" using True by simp
          ultimately have b0: "writes_ok (snd ?b)" "isInitialized (snd ?b)"
            "\<forall>v \<in> set (lastProcessed_writes (snd ?b)). v < l + 1 \<or> v \<le> latest"
            using writes_ok_backfill [OF ok0, of "l + 1" latest] by simp_all
          from b0(3) gt have "\<forall>v \<in> set (lastProcessed_writes (snd ?b)). v \<le> latest"
            by force
          with b0 have b: "writes_ok (snd ?b)" "isInitialized (snd ?b)"
            "\<forall>v \<in> set (lastProcessed_writes (snd ?b)). v \<le> latest"
            by simp_all
          then have "writes_ok (set_lastProcessed latest (snd ?b))"
            by (rule writes_ok_set_lastProcessed)
          with b(1) Some True Inr gt show ?thesis
            by (cases ?b) (auto simp: handleReconnection_def backfillBlocks_def
                split: option.splits)
        qed
      qed
    qed
  qed
qed

lemma writes_ok_run:
  "writes_ok m \<Longrightarrow> no_regression ops m \<Longrightarrow> writes_ok (continuity_run ops m)"
proof (induction ops arbitrary: m)
  case Nil
  then show ?case by simp
next
  case (Cons op ops)
  have "writes_ok (snd (continuity_op op m))"
  proof (cases op)
    case Initialize
    with Cons.prems show ?thesis by (simp add: writes_ok_initialize)
  next
    case (ProcessNewBlock n)
    with Cons.prems show ?thesis by (simp add: writes_ok_processNewBlock)
  next
    case (HandleReconnection newClient)
    with Cons.prems show ?thesis by (simp add: writes_ok_handleReconnection)
  qed
  with Cons show ?case by simp
qed

lemma handleReconnection_regresses:
  assumes "regresses (HandleReconnection newClient) m"
  shows "\<exists>latest l. getBlockNumber newClient = Inr latest
    \<and> lastProcessedBlockNumber m = Some l \<and> latest < l
    \<and> lastProcessedBlockNumber (snd (handleReconnection newClient m)) = Some latest"
  using assms
  by (auto simp: handleReconnection_def set_lastProcessed_def split: sum.splits option.splits)

lemmas continuity_eval =
  new_BlockContinuityManager_def initialize_def processNewBlock_def handleReconnection_def
  fetch_then_advance_def fetchAndProcessBlock_def set_lastProcessed_def backfillBlocks_def
  backfillBlocks_loop.simps mock_fields Let_def

text \<open>
  C3, as stated, fails at a reconnection: the engine is initialized at 100, the new node
  reports the head 90, and \<open>handleReconnection\<close> assigns 90.
\<close>

theorem lastProcessed_decreases_on_reconnection:
  "lastProcessedBlockNumber at_100 = Some 100
   \<and> lastProcessedBlockNumber (snd (handleReconnection (mock_client 90 []) at_100)) = Some 90"
  by (simp add: at_100_def continuity_eval)

text \<open>
  C3 (amended). In any run of \<open>initialize\<close>, \<open>processNewBlock\<close> and
  \<open>handleReconnection\<close> calls on a new engine in which no reconnection finds the new
  node's head below \<open>lastProcessed\<close>, the values assigned to \<open>lastProcessed\<close> are in
  non-decreasing order and the field holds the last of them. A reconnection of an
  initialized engine that finds the head \<open>latest\<close> below \<open>lastProcessed\<close> assigns
  \<open>latest\<close>.
\<close>

theorem lastProcessed_monotone:
  "(no_regression ops (new_BlockContinuityManager cl cfg) \<longrightarrow>
      sorted (lastProcessed_writes (continuity_run ops (new_BlockContinuityManager cl cfg)))
      \<and> lastProcessedBlockNumber (continuity_run ops (new_BlockContinuityManager cl cfg))
          = (if lastProcessed_writes (continuity_run ops (new_BlockContinuityManager cl cfg)) = []
             then None
             else Some (last (lastProcessed_writes
                    (continuity_run ops (new_BlockContinuityManager cl cfg))))))
   \<and> (regresses (HandleReconnection newClient) m \<longrightarrow>
        (\<exists>latest l. getBlockNumber newClient = Inr latest
           \<and> lastProcessedBlockNumber m = Some l \<and> latest < l
           \<and> lastProcessedBlockNumber (snd (handleReconnection newClient m)) = Some latest))"
proof -
  have "writes_ok (new_BlockContinuityManager cl cfg)"
    by (simp add: writes_ok_def new_BlockContinuityManager_def)
  then have "no_regression ops (new_BlockContinuityManager cl cfg) \<Longrightarrow>
      writes_ok (continuity_run ops (new_BlockContinuityManager cl cfg))"
    by (rule writes_ok_run)
  then show ?thesis
    using handleReconnection_regresses [of newClient m]
    by (auto simp: writes_ok_def)
qed

text \<open>
  Scenario S5 (initialized at 100, heads 101 and 102, reconnection to a node at 106) has
  no regressing reconnection and assigns 100, 101, 102, 103, 104, 105, 106 and 106 again.
  A reconnection of the engine standing at 100 to a node at 90 regresses, and assigns 90.
\<close>

theorem lastProcessed_monotone_witness:
  "no_regression S5_ops (new_BlockContinuityManager (mock_client 100 []) mock_config)
   \<and> sorted (lastProcessed_writes
        (continuity_run S5_ops (new_BlockContinuityManager (mock_client 100 []) mock_config)))
   \<and> lastProcessedBlockNumber
        (continuity_run S5_ops (new_BlockContinuityManager (mock_client 100 []) mock_config))
       = Some 106
   \<and> regresses (HandleReconnection (mock_client 90 [])) at_100
   \<and> lastProcessedBlockNumber (snd (handleReconnection (mock_client 90 []) at_100)) = Some 90"
proof -
  have run: "no_regression S5_ops (new_BlockContinuityManager (mock_client 100 []) mock_config)"
    by (simp add: S5_ops_def continuity_eval)
  have writes: "lastProcessed_writes
        (continuity_run S5_ops (new_BlockContinuityManager (mock_client 100 []) mock_config))
      = [100, 101, 102, 103, 104, 105, 106, 106]"
    by (simp add: S5_ops_def continuity_eval)
  have lower: "regresses (HandleReconnection (mock_client 90 [])) at_100"
    by (simp add: at_100_def continuity_eval)
  from lastProcessed_monotone [of S5_ops "mock_client 100 []" mock_config "mock_client 90 []" at_100]
    run writes lower
  show ?thesis by (auto simp: mock_fields)
qed

section \<open>The endpoint pool (\<^verbatim>\<open>rpcPool.ts\<close>)\<close>

text \<open>
  Times are epoch milliseconds and counters count; both hold integers, so \<^verbatim>\<open>number\<close> is
  \<open>int\<close> here, and \<open>nat\<close> for \<open>failCount\<close>. \<^verbatim>\<open>Date.now()\<close> is a parameter of every
  function that reads the clock, one parameter for each reading.
\<close>

datatype EndpointStatus = HEALTHY | DEGRADED | DOWN

record EndpointHealth =
  url :: string
  status :: EndpointStatus
  failCount :: nat
  lastErrorTime :: int
  lastSuccessTime :: int
  nextAvailableTime :: int

record RpcPoolConfig =
  baseDelay :: int
  maxCooldown :: int
  healthCheckInterval :: int
  requestTimeout :: int

definition DEFAULT_CONFIG :: RpcPoolConfig where
  "DEFAULT_CONFIG =
     \<lparr> baseDelay = 5000, maxCooldown = 300000, healthCheckInterval = 60000,
       requestTimeout = 10000 \<rparr>"

text \<open>
  The fields of \<^verbatim>\<open>WsRpcPool\<close> that its synchronous methods read and write; \<^verbatim>\<open>config\<close> is
  \<open>poolConfig\<close>. The health records are objects held in a \<^verbatim>\<open>Map\<close> keyed by URL, one
  object per key, so a mutation of \<^verbatim>\<open>healthMap.get(endpoint)\<close> is an update of the map at
  \<open>endpoint\<close>.
\<close>

record WsRpcPool =
  endpoints :: "string list"
  healthMap :: "string \<rightharpoonup> EndpointHealth"
  currentIndex :: nat
  currentClient :: "Client option"
  currentEndpoint :: "string option"
  poolConfig :: RpcPoolConfig
  isConnecting :: bool
  isDestroyed :: bool

text \<open>
  The constructor; the timer it starts is not part of the state. One reading \<open>now\<close> of
  the clock stamps \<open>lastSuccessTime\<close> of every endpoint.
\<close>

definition new_WsRpcPool :: "int \<Rightarrow> string list \<Rightarrow> RpcPoolConfig \<Rightarrow> error + WsRpcPool" where
  "new_WsRpcPool now urls cfg =
     (if length urls = 0 then Inl (Error ''At least one WebSocket endpoint is required'')
      else Inr \<lparr> endpoints = urls,
                 healthMap = fold (\<lambda>u hm. hm(u \<mapsto> \<lparr> url = u, status = HEALTHY, failCount = 0,
                                                    lastErrorTime = 0, lastSuccessTime = now,
                                                    nextAvailableTime = 0 \<rparr>))
                               urls Map.empty,
                 currentIndex = 0,
                 currentClient = None,
                 currentEndpoint = None,
                 poolConfig = cfg,
                 isConnecting = False,
                 isDestroyed = False \<rparr>)"

text \<open>
  \<^verbatim>\<open>handleConnectionError\<close> reads the clock twice: \<open>now1\<close> for \<open>lastErrorTime\<close>, \<open>now2\<close>
  for \<open>nextAvailableTime\<close>. Without a health record for the endpoint the increment raises
  a TypeError.
\<close>

definition handleConnectionError :: "int \<Rightarrow> int \<Rightarrow> string \<Rightarrow> WsRpcPool \<Rightarrow> error + WsRpcPool" where
  "handleConnectionError now1 now2 endpoint p =
     (case healthMap p endpoint of
        None \<Rightarrow> Inl (TypeError ''Cannot read properties of undefined'')
      | Some health \<Rightarrow>
          (let count = failCount health + 1;
               cooldown = min (2 ^ count * baseDelay (poolConfig p)) (maxCooldown (poolConfig p))
           in Inr (p \<lparr> healthMap := (healthMap p)(endpoint \<mapsto>
                    health \<lparr> failCount := count,
                             lastErrorTime := now1,
                             nextAvailableTime := now2 + cooldown,
                             status := (if count \<ge> 3 then DOWN else DEGRADED) \<rparr>) \<rparr>)))"

text \<open>
  The \<^verbatim>\<open>while\<close> loop of \<^verbatim>\<open>getCurrentHealthyEndpoint\<close>: \<open>Inr (Some endpoint, p)\<close> is the
  \<^verbatim>\<open>return endpoint\<close> inside the loop, \<open>Inr (None, p)\<close> the exit of the loop after
  \<open>endpoints.length\<close> attempts. An index outside the array reads \<^verbatim>\<open>undefined\<close>, for which
  the map has no record.
\<close>

function getCurrentHealthyEndpoint_loop ::
  "int \<Rightarrow> nat \<Rightarrow> WsRpcPool \<Rightarrow> error + (string option \<times> WsRpcPool)" where
  "getCurrentHealthyEndpoint_loop now attempts p =
     (if attempts < length (endpoints p) then
        (if currentIndex p < length (endpoints p) then
           (let endpoint = endpoints p ! currentIndex p in
            case healthMap p endpoint of
              None \<Rightarrow> Inl (TypeError ''Cannot read properties of undefined'')
            | Some health \<Rightarrow>
                if nextAvailableTime health \<le> now \<and> status health \<noteq> DOWN
                then Inr (Some endpoint, p)
                else getCurrentHealthyEndpoint_loop now (attempts + 1)
                       (p \<lparr> currentIndex := (currentIndex p + 1) mod length (endpoints p) \<rparr>))
         else Inl (TypeError ''Cannot read properties of undefined''))
      else Inr (None, p))"
  by pat_completeness auto
termination
  by (relation "measure (\<lambda>(now, attempts, p). length (endpoints p) - attempts)") auto

declare getCurrentHealthyEndpoint_loop.simps [simp del]

text \<open>
  The \<^verbatim>\<open>for\<close> loop that searches the earliest \<open>nextAvailableTime\<close>, with its two
  variables \<open>bestEndpoint\<close> and \<open>earliestTime\<close>.
\<close>

fun earliest_scan ::
  "(string \<rightharpoonup> EndpointHealth) \<Rightarrow> string list \<Rightarrow> string \<Rightarrow> int \<Rightarrow> error + string" where
  "earliest_scan hm [] bestEndpoint earliestTime = Inr bestEndpoint"
| "earliest_scan hm (endpoint # rest) bestEndpoint earliestTime =
     (case hm endpoint of
        None \<Rightarrow> Inl (TypeError ''Cannot read properties of undefined'')
      | Some health \<Rightarrow>
          if nextAvailableTime health < earliestTime
          then earliest_scan hm rest endpoint (nextAvailableTime health)
          else earliest_scan hm rest bestEndpoint earliestTime)"

definition getCurrentHealthyEndpoint :: "int \<Rightarrow> WsRpcPool \<Rightarrow> error + (string \<times> WsRpcPool)" where
  "getCurrentHealthyEndpoint now p =
     (case getCurrentHealthyEndpoint_loop now 0 p of
        Inl e \<Rightarrow> Inl e
      | Inr (Some endpoint, p1) \<Rightarrow> Inr (endpoint, p1)
      | Inr (None, p1) \<Rightarrow>
          (if currentIndex p1 < length (endpoints p1) then
             (case healthMap p1 (endpoints p1 ! currentIndex p1) of
                None \<Rightarrow> Inl (TypeError ''Cannot read properties of undefined'')
              | Some health \<Rightarrow>
                  (case earliest_scan (healthMap p1) (endpoints p1)
                          (endpoints p1 ! currentIndex p1) (nextAvailableTime health) of
                     Inl e \<Rightarrow> Inl e
                   | Inr bestEndpoint \<Rightarrow> Inr (bestEndpoint, p1)))
           else Inl (TypeError ''Cannot read properties of undefined'')))"

text \<open>
  The \<^verbatim>\<open>do ... while\<close> loop of \<^verbatim>\<open>rotateToNextHealthyEndpoint\<close>. It ends when an available
  endpoint is found or the index is back at \<open>startIndex\<close>; \<open>None\<close> is a loop that never
  ends.
\<close>

partial_function (option) rotateToNextHealthyEndpoint_loop ::
  "int \<Rightarrow> nat \<Rightarrow> WsRpcPool \<Rightarrow> (error + WsRpcPool) option" where
  "rotateToNextHealthyEndpoint_loop now startIndex p =
     (let p1 = p \<lparr> currentIndex := (currentIndex p + 1) mod length (endpoints p) \<rparr> in
      if currentIndex p1 < length (endpoints p1) then
        (case healthMap p1 (endpoints p1 ! currentIndex p1) of
           None \<Rightarrow> Some (Inl (TypeError ''Cannot read properties of undefined''))
         | Some health \<Rightarrow>
             if nextAvailableTime health \<le> now \<and> status health \<noteq> DOWN then Some (Inr p1)
             else if currentIndex p1 \<noteq> startIndex
                  then rotateToNextHealthyEndpoint_loop now startIndex p1
                  else Some (Inr p1))
      else Some (Inl (TypeError ''Cannot read properties of undefined'')))"

declare rotateToNextHealthyEndpoint_loop.simps [code]

definition rotateToNextHealthyEndpoint :: "int \<Rightarrow> WsRpcPool \<Rightarrow> (error + WsRpcPool) option" where
  "rotateToNextHealthyEndpoint now p = rotateToNextHealthyEndpoint_loop now (currentIndex p) p"

text \<open>
  The part of \<^verbatim>\<open>handleDisconnection\<close> that runs before its
  \<^verbatim>\<open>await this.connectToHealthyEndpoint()\<close>: the two guards, the health update, the drop of
  the client and the rotation (\<open>now1\<close> and \<open>now2\<close> are the clock readings of the update and
  of the rotation). Its result is the pool as the reconnection attempt finds it. That
  attempt opens sockets and may choose the closed endpoint again and write its record once
  more (through \<^verbatim>\<open>recordSuccess\<close> or \<^verbatim>\<open>handleConnectionError\<close>); it is not part of
  this definition, and nothing below speaks of the pool after it.
\<close>

definition handleDisconnection_before_reconnect ::
  "int \<Rightarrow> int \<Rightarrow> string \<Rightarrow> WsRpcPool \<Rightarrow> (error + WsRpcPool) option" where
  "handleDisconnection_before_reconnect now1 now2 endpoint p =
     (if isDestroyed p then Some (Inr p)
      else case healthMap p endpoint of
             None \<Rightarrow> Some (Inr p)
           | Some health \<Rightarrow>
               rotateToNextHealthyEndpoint now2
                 (p \<lparr> healthMap := (healthMap p)(endpoint \<mapsto>
                        health \<lparr> failCount := failCount health + 1,
                                 lastErrorTime := now1,
                                 status := DEGRADED \<rparr>),
                      currentClient := None,
                      currentEndpoint := None \<rparr>))"

text \<open>
  The pool as its constructor leaves it: at least one endpoint, the index inside the list,
  a health record for every endpoint.
\<close>

definition wf_pool :: "WsRpcPool \<Rightarrow> bool" where
  "wf_pool p \<longleftrightarrow>
     endpoints p \<noteq> [] \<and> currentIndex p < length (endpoints p)
     \<and> set (endpoints p) \<subseteq> dom (healthMap p)"

text \<open>The test of both loops: out of cooldown at \<open>now\<close> and not marked down.\<close>

definition is_available :: "int \<Rightarrow> (string \<rightharpoonup> EndpointHealth) \<Rightarrow> string \<Rightarrow> bool" where
  "is_available now hm u =
     (case hm u of
        None \<Rightarrow> False
      | Some health \<Rightarrow> nextAvailableTime health \<le> now \<and> status health \<noteq> DOWN)"

definition nextAvailable_of :: "(string \<rightharpoonup> EndpointHealth) \<Rightarrow> string \<Rightarrow> int" where
  "nextAvailable_of hm u = (case hm u of None \<Rightarrow> 0 | Some health \<Rightarrow> nextAvailableTime health)"

text \<open>
  Example pools: two endpoints A and B with the default delays, created at time 0; A failed
  at 1000; then B failed at 3000; or A failed a second time at 2000.
\<close>

definition pool_AB :: WsRpcPool where
  "pool_AB = (case new_WsRpcPool 0 [''wss://a'', ''wss://b''] DEFAULT_CONFIG of Inr p \<Rightarrow> p)"

definition pool_A_failed :: WsRpcPool where
  "pool_A_failed = (case handleConnectionError 1000 1000 ''wss://a'' pool_AB of Inr p \<Rightarrow> p)"

definition pool_both_failed :: WsRpcPool where
  "pool_both_failed =
     (case handleConnectionError 3000 3000 ''wss://b'' pool_A_failed of Inr p \<Rightarrow> p)"

definition pool_A_failed_twice :: WsRpcPool where
  "pool_A_failed_twice =
     (case handleConnectionError 2000 2000 ''wss://a'' pool_A_failed of Inr p \<Rightarrow> p)"

subsection \<open>Properties of the endpoint pool\<close>

lemma getCurrentHealthyEndpoint_loop_find:
  assumes "set (endpoints p) \<subseteq> dom (healthMap p)" and "c0 < length (endpoints p)"
    and "a \<le> length (endpoints p)"
    and "currentIndex p = (c0 + a) mod length (endpoints p)"
  shows "\<exists>k < length (endpoints p).
     getCurrentHealthyEndpoint_loop now a p
       = Inr (find (is_available now (healthMap p)) (drop a (rotate c0 (endpoints p))),
              p \<lparr> currentIndex := k \<rparr>)"
  using assms
proof (induction "length (endpoints p) - a" arbitrary: a p)
  case 0
  then have all: "a = length (endpoints p)" by simp
  have "getCurrentHealthyEndpoint_loop now a p = Inr (None, p)"
    by (subst getCurrentHealthyEndpoint_loop.simps) (simp add: all)
  with 0 all show ?case
    by (intro exI [of _ "currentIndex p"]) simp
next
  case (Suc d)
  let ?n = "length (endpoints p)"
  let ?ring = "rotate c0 (endpoints p)"
  let ?u = "endpoints p ! currentIndex p"
  from Suc have less: "a < ?n" by simp
  then have "0 < ?n" by (cases "endpoints p") simp_all
  then have idx: "currentIndex p < ?n" unfolding Suc.prems(4) by (rule mod_less_divisor)
  have at: "?ring ! a = ?u"
    using less Suc.prems(4) by (simp add: nth_rotate)
  have dropped: "drop a ?ring = ?u # drop (Suc a) ?ring"
    using less at Cons_nth_drop_Suc [of a ?ring] by simp
  from idx Suc.prems(1) obtain health where health: "healthMap p ?u = Some health"
    by (metis domD nth_mem subsetD)
  show ?case
  proof (cases "nextAvailableTime health \<le> now \<and> status health \<noteq> DOWN")
    case True
    with health idx less dropped show ?thesis
      by (intro exI [of _ "currentIndex p"])
         (simp add: getCurrentHealthyEndpoint_loop.simps [of now a p] is_available_def)
  next
    case False
    let ?p2 = "p \<lparr> currentIndex := (currentIndex p + 1) mod ?n \<rparr>"
    have "currentIndex ?p2 = (c0 + Suc a) mod length (endpoints ?p2)"
      using Suc.prems(4) by (simp add: mod_Suc_eq)
    moreover have "length (endpoints ?p2) - Suc a = d" using Suc.hyps(2) by simp
    ultimately obtain k where k: "k < ?n"
      "getCurrentHealthyEndpoint_loop now (Suc a) ?p2
         = Inr (find (is_available now (healthMap p)) (drop (Suc a) ?ring),
                p \<lparr> currentIndex := k \<rparr>)"
      using Suc.hyps(1) [of ?p2 "Suc a"] Suc.prems(1,2) less by auto
    with False health idx less dropped show ?thesis
      by (intro exI [of _ k])
         (auto simp: getCurrentHealthyEndpoint_loop.simps [of now a p] is_available_def)
  qed
qed

lemma earliest_scan_min:
  assumes "set rest \<subseteq> dom hm" and "earliestTime = nextAvailable_of hm bestEndpoint"
  shows "\<exists>u. earliest_scan hm rest bestEndpoint earliestTime = Inr u
    \<and> (u = bestEndpoint \<or> u \<in> set rest)
    \<and> nextAvailable_of hm u \<le> nextAvailable_of hm bestEndpoint
    \<and> (\<forall>v \<in> set rest. nextAvailable_of hm u \<le> nextAvailable_of hm v)"
  using assms
proof (induction rest arbitrary: bestEndpoint earliestTime)
  case Nil
  then show ?case by simp
next
  case (Cons endpoint rest)
  then obtain health where health: "hm endpoint = Some health" by auto
  show ?case
  proof (cases "nextAvailableTime health < earliestTime")
    case True
    from Cons.prems have "set rest \<subseteq> dom hm" by simp
    moreover have "nextAvailableTime health = nextAvailable_of hm endpoint"
      using health by (simp add: nextAvailable_of_def)
    ultimately obtain u where "earliest_scan hm rest endpoint (nextAvailableTime health) = Inr u"
      "u = endpoint \<or> u \<in> set rest"
      "nextAvailable_of hm u \<le> nextAvailable_of hm endpoint"
      "\<forall>v \<in> set rest. nextAvailable_of hm u \<le> nextAvailable_of hm v"
      using Cons.IH [of "nextAvailableTime health" endpoint] by blast
    with True health Cons.prems(2) show ?thesis
      by (intro exI [of _ u]) (auto simp: nextAvailable_of_def)
  next
    case False
    from Cons.prems have "set rest \<subseteq> dom hm" by simp
    then obtain u where "earliest_scan hm rest bestEndpoint earliestTime = Inr u"
      "u = bestEndpoint \<or> u \<in> set rest"
      "nextAvailable_of hm u \<le> nextAvailable_of hm bestEndpoint"
      "\<forall>v \<in> set rest. nextAvailable_of hm u \<le> nextAvailable_of hm v"
      using Cons.IH [of earliestTime bestEndpoint] Cons.prems(2) by blast
    with False health Cons.prems(2) show ?thesis
      by (intro exI [of _ u]) (auto simp: nextAvailable_of_def)
  qed
qed

text \<open>
  C8. On a pool with at least one endpoint, \<open>getCurrentHealthyEndpoint\<close> returns the first
  endpoint, in ring order from \<open>currentIndex\<close> over one round, whose status is not Down
  and whose \<open>nextAvailableTime\<close> is at most \<open>now\<close>; when no endpoint of the ring
  qualifies it returns an endpoint of the pool whose \<open>nextAvailableTime\<close> is smallest
  among all endpoints. Only \<open>currentIndex\<close> changes.
\<close>

theorem getCurrentHealthyEndpoint_first_available:
  assumes "wf_pool p"
  shows "\<exists>u k. k < length (endpoints p)
    \<and> getCurrentHealthyEndpoint now p = Inr (u, p \<lparr> currentIndex := k \<rparr>)
    \<and> (case find (is_available now (healthMap p)) (rotate (currentIndex p) (endpoints p)) of
          Some first \<Rightarrow> u = first
        | None \<Rightarrow> u \<in> set (endpoints p)
            \<and> (\<forall>v \<in> set (endpoints p).
                  nextAvailable_of (healthMap p) u \<le> nextAvailable_of (healthMap p) v))"
proof -
  let ?n = "length (endpoints p)"
  let ?found = "find (is_available now (healthMap p)) (rotate (currentIndex p) (endpoints p))"
  from assms have wf: "set (endpoints p) \<subseteq> dom (healthMap p)" "currentIndex p < ?n"
    by (simp_all add: wf_pool_def)
  then obtain k where k: "k < ?n"
    "getCurrentHealthyEndpoint_loop now 0 p = Inr (?found, p \<lparr> currentIndex := k \<rparr>)"
    using getCurrentHealthyEndpoint_loop_find [of p "currentIndex p" 0 now] by auto
  show ?thesis
  proof (cases ?found)
    case (Some first)
    with k show ?thesis
      by (intro exI [of _ first] exI [of _ k]) (simp add: getCurrentHealthyEndpoint_def)
  next
    case None
    let ?best = "endpoints p ! k"
    from k(1) wf(1) obtain health where health: "healthMap p ?best = Some health"
      by (metis domD nth_mem subsetD)
    then have "nextAvailableTime health = nextAvailable_of (healthMap p) ?best"
      by (simp add: nextAvailable_of_def)
    with wf(1) obtain u where u:
      "earliest_scan (healthMap p) (endpoints p) ?best (nextAvailableTime health) = Inr u"
      "u = ?best \<or> u \<in> set (endpoints p)"
      "\<forall>v \<in> set (endpoints p). nextAvailable_of (healthMap p) u \<le> nextAvailable_of (healthMap p) v"
      using earliest_scan_min [of "endpoints p" "healthMap p" "nextAvailableTime health" ?best]
      by blast
    from u(2) k(1) have "u \<in> set (endpoints p)" by auto
    with None k health u show ?thesis
      by (intro exI [of _ u] exI [of _ k]) (simp add: getCurrentHealthyEndpoint_def)
  qed
qed

lemmas pool_eval =
  pool_AB_def pool_A_failed_def pool_both_failed_def pool_A_failed_twice_def
  new_WsRpcPool_def handleConnectionError_def DEFAULT_CONFIG_def Let_def

lemma example_pools_wf:
  "wf_pool pool_AB" "wf_pool pool_A_failed" "wf_pool pool_both_failed"
  "wf_pool pool_A_failed_twice"
  by (simp_all add: wf_pool_def pool_eval)

text \<open>
  Endpoint A failed at time 1000 and is in cooldown until 11000; at time 2000 the walk
  from index 0 passes A and returns B. With B failed too, at 3000, no endpoint is
  available at 5000 and A, whose cooldown ends first, is returned.
\<close>

theorem getCurrentHealthyEndpoint_first_available_witness:
  "wf_pool pool_A_failed
   \<and> map_sum id fst (getCurrentHealthyEndpoint 2000 pool_A_failed) = Inr ''wss://b''
   \<and> wf_pool pool_both_failed
   \<and> map_sum id fst (getCurrentHealthyEndpoint 5000 pool_both_failed) = Inr ''wss://a''"
proof -
  have first: "find (is_available 2000 (healthMap pool_A_failed))
      (rotate (currentIndex pool_A_failed) (endpoints pool_A_failed)) = Some ''wss://b''"
    by (simp add: pool_eval is_available_def)
  have none: "find (is_available 5000 (healthMap pool_both_failed))
      (rotate (currentIndex pool_both_failed) (endpoints pool_both_failed)) = None"
    by (simp add: pool_eval is_available_def)
  have times: "endpoints pool_both_failed = [''wss://a'', ''wss://b'']"
    "nextAvailable_of (healthMap pool_both_failed) ''wss://a'' = 11000"
    "nextAvailable_of (healthMap pool_both_failed) ''wss://b'' = 13000"
    by (simp_all add: pool_eval nextAvailable_of_def)
  from getCurrentHealthyEndpoint_first_available [OF example_pools_wf(2), of 2000] first
  have "map_sum id fst (getCurrentHealthyEndpoint 2000 pool_A_failed) = Inr ''wss://b''"
    by auto
  moreover
  from getCurrentHealthyEndpoint_first_available [OF example_pools_wf(3), of 5000] none times
  have "map_sum id fst (getCurrentHealthyEndpoint 5000 pool_both_failed) = Inr ''wss://a''"
    by auto
  ultimately show ?thesis
    using example_pools_wf by simp
qed

lemma handleConnectionError_health:
  assumes "healthMap p endpoint = Some health"
  shows "\<exists>p'. handleConnectionError now1 now2 endpoint p = Inr p'
    \<and> healthMap p' endpoint = Some (health
         \<lparr> failCount := failCount health + 1,
           lastErrorTime := now1,
           nextAvailableTime := now2 + min (2 ^ (failCount health + 1) * baseDelay (poolConfig p))
                                        (maxCooldown (poolConfig p)),
           status := (if failCount health + 1 < 3 then DEGRADED else DOWN) \<rparr>)"
  using assms by (simp add: handleConnectionError_def Let_def)

lemma rotateToNextHealthyEndpoint_loop_returns:
  assumes "endpoints p \<noteq> []" and "set (endpoints p) \<subseteq> dom (healthMap p)"
    and "1 \<le> k" and "(currentIndex p + k) mod length (endpoints p) = startIndex"
  shows "\<exists>j < length (endpoints p).
     rotateToNextHealthyEndpoint_loop now startIndex p = Some (Inr (p \<lparr> currentIndex := j \<rparr>))"
  using assms
proof (induction k arbitrary: p)
  case 0
  then show ?case by simp
next
  case (Suc k)
  let ?n = "length (endpoints p)"
  let ?j = "(currentIndex p + 1) mod ?n"
  let ?p1 = "p \<lparr> currentIndex := ?j \<rparr>"
  from Suc.prems(1) have pos: "0 < ?n" by simp
  then have j: "?j < ?n" by (rule mod_less_divisor)
  with Suc.prems(2) obtain health where health: "healthMap p (endpoints p ! ?j) = Some health"
    by (metis domD nth_mem subsetD)
  show ?case
  proof (cases "(nextAvailableTime health \<le> now \<and> status health \<noteq> DOWN) \<or> ?j = startIndex")
    case True
    with j health have "rotateToNextHealthyEndpoint_loop now startIndex p = Some (Inr ?p1)"
      by (subst rotateToNextHealthyEndpoint_loop.simps) (auto simp: Let_def)
    with j show ?thesis by blast
  next
    case False
    have "k \<noteq> 0"
    proof
      assume "k = 0"
      with Suc.prems(4) have "?j = startIndex" by simp
      with False show False by simp
    qed
    then have "1 \<le> k" by simp
    moreover have "(currentIndex ?p1 + k) mod length (endpoints ?p1) = startIndex"
      using Suc.prems(4) by (simp add: mod_add_left_eq)
    ultimately obtain i where i: "i < ?n"
      "rotateToNextHealthyEndpoint_loop now startIndex ?p1 = Some (Inr (p \<lparr> currentIndex := i \<rparr>))"
      using Suc.IH [of ?p1] Suc.prems(1,2) by auto
    from False j health i(2)
    have "rotateToNextHealthyEndpoint_loop now startIndex p = Some (Inr (p \<lparr> currentIndex := i \<rparr>))"
      by (subst rotateToNextHealthyEndpoint_loop.simps) (auto simp: Let_def)
    with i(1) show ?thesis by blast
  qed
qed

lemma handleDisconnection_before_reconnect_health:
  assumes "wf_pool p" and "\<not> isDestroyed p" and "healthMap p endpoint = Some health"
  shows "\<exists>p'. handleDisconnection_before_reconnect now1 now2 endpoint p = Some (Inr p')
    \<and> healthMap p' endpoint = Some (health
         \<lparr> failCount := failCount health + 1, lastErrorTime := now1, status := DEGRADED \<rparr>)"
proof -
  let ?p1 = "p \<lparr> healthMap := (healthMap p)(endpoint \<mapsto>
                 health \<lparr> failCount := failCount health + 1,
                          lastErrorTime := now1,
                          status := DEGRADED \<rparr>),
               currentClient := None,
               currentEndpoint := None \<rparr>"
  from assms(1) have "endpoints ?p1 \<noteq> []" "set (endpoints ?p1) \<subseteq> dom (healthMap ?p1)"
    "1 \<le> length (endpoints ?p1)"
    "(currentIndex ?p1 + length (endpoints ?p1)) mod length (endpoints ?p1) = currentIndex ?p1"
    by (auto simp: wf_pool_def Suc_le_eq)
  from rotateToNextHealthyEndpoint_loop_returns [OF this, of now2]
  obtain j where "rotateToNextHealthyEndpoint now2 ?p1 = Some (Inr (?p1 \<lparr> currentIndex := j \<rparr>))"
    by (auto simp: rotateToNextHealthyEndpoint_def)
  with assms(2,3) show ?thesis
    by (simp add: handleDisconnection_before_reconnect_def)
qed

text \<open>
  C5, as stated, fails on the close signal. Endpoint A has failed twice (its cooldown runs
  until 22000); its connection closes at time 50000. When \<^verbatim>\<open>handleDisconnection\<close> starts
  its reconnection attempt it has raised \<open>failCount\<close> to 3 and set \<open>lastErrorTime\<close>,
  but the status is Degraded, not Down, and \<open>nextAvailableTime\<close> is still 22000 instead of
  50000 + 40000.
\<close>

theorem disconnection_skips_cooldown:
  "map_option (map_sum id (\<lambda>p. healthMap p ''wss://a''))
     (handleDisconnection_before_reconnect 50000 50000 ''wss://a''
        pool_A_failed_twice)
   = Some (Inr (Some \<lparr> url = ''wss://a'', status = DEGRADED, failCount = 3,
                       lastErrorTime = 50000, lastSuccessTime = 0,
                       nextAvailableTime = 22000 \<rparr>))"
proof -
  have health: "healthMap pool_A_failed_twice ''wss://a''
      = Some \<lparr> url = ''wss://a'', status = DEGRADED, failCount = 2, lastErrorTime = 2000,
               lastSuccessTime = 0, nextAvailableTime = 22000 \<rparr>"
    and alive: "\<not> isDestroyed pool_A_failed_twice"
    by (simp_all add: pool_eval)
  from handleDisconnection_before_reconnect_health
    [OF example_pools_wf(4) alive health, of 50000 50000]
  show ?thesis by auto
qed

text \<open>
  C5 (amended). \<open>handleConnectionError\<close>, which runs on every failed connection attempt
  and on the error signal of a socket, increments \<open>failCount\<close>, sets \<open>lastErrorTime\<close>
  to the clock reading, sets \<open>nextAvailableTime\<close> to the clock reading plus
  \<open>min (2 ^ failCount * baseDelay) maxCooldown\<close> with the incremented count, and makes
  the status Degraded when the incremented count is below 3 and Down otherwise. On the
  close signal, \<^verbatim>\<open>handleDisconnection\<close> has, by the time it starts its reconnection
  attempt, incremented \<open>failCount\<close>, set \<open>lastErrorTime\<close> and made the status Degraded,
  and has left \<open>nextAvailableTime\<close> as it was.
\<close>

theorem failure_bookkeeping:
  "(healthMap p endpoint = Some health \<longrightarrow>
      (\<exists>p'. handleConnectionError now1 now2 endpoint p = Inr p'
         \<and> healthMap p' endpoint = Some (health
              \<lparr> failCount := failCount health + 1,
                lastErrorTime := now1,
                nextAvailableTime :=
                  now2 + min (2 ^ (failCount health + 1) * baseDelay (poolConfig p))
                             (maxCooldown (poolConfig p)),
                status := (if failCount health + 1 < 3 then DEGRADED else DOWN) \<rparr>)))
   \<and> (wf_pool p \<and> \<not> isDestroyed p \<and> healthMap p endpoint = Some health \<longrightarrow>
      (\<exists>p'. handleDisconnection_before_reconnect now1 now2 endpoint p = Some (Inr p')
         \<and> healthMap p' endpoint = Some (health
              \<lparr> failCount := failCount health + 1,
                lastErrorTime := now1,
                status := DEGRADED \<rparr>)))"
  using handleConnectionError_health [of p endpoint health now1 now2]
    handleDisconnection_before_reconnect_health [of p endpoint health now1 now2]
  by blast

text \<open>
  The third failure of endpoint A, at time 50000 with the default delays: as a connection
  error it marks A Down with a cooldown of 40 seconds; as a close it has marked A Degraded
  when the reconnection attempt starts.
\<close>

theorem failure_bookkeeping_witness:
  "map_sum id (\<lambda>p. healthMap p ''wss://a'')
     (handleConnectionError 50000 50000 ''wss://a'' pool_A_failed_twice)
   = Inr (Some \<lparr> url = ''wss://a'', status = DOWN, failCount = 3,
                 lastErrorTime = 50000, lastSuccessTime = 0,
                 nextAvailableTime = 90000 \<rparr>)
   \<and> map_option (map_sum id (\<lambda>p. map_option status (healthMap p ''wss://a'')))
        (handleDisconnection_before_reconnect 50000 50000 ''wss://a''
        pool_A_failed_twice)
     = Some (Inr (Some DEGRADED))"
proof -
  have health: "healthMap pool_A_failed_twice ''wss://a''
      = Some \<lparr> url = ''wss://a'', status = DEGRADED, failCount = 2, lastErrorTime = 2000,
               lastSuccessTime = 0, nextAvailableTime = 22000 \<rparr>"
    and alive: "\<not> isDestroyed pool_A_failed_twice"
    and delays: "baseDelay (poolConfig pool_A_failed_twice) = 5000"
      "maxCooldown (poolConfig pool_A_failed_twice) = 300000"
    by (simp_all add: pool_eval)
  from failure_bookkeeping [of pool_A_failed_twice "''wss://a''"
      "\<lparr> url = ''wss://a'', status = DEGRADED, failCount = 2, lastErrorTime = 2000,
         lastSuccessTime = 0, nextAvailableTime = 22000 \<rparr>" 50000 50000]
    health alive delays example_pools_wf(4)
  show ?thesis by auto
qed

end
